theory Spec2Isabelle
  imports Main "HOL-Library.Word" "HOL-Library.AList"
begin

unbundle bit_operations_syntax

section \<open>Data model\<close>

text \<open>
  The layered coin cache of \<^verbatim>\<open>src/coins.cpp\<close>.  The classes are declared in
  \<^verbatim>\<open>coins.h\<close>, which is not among the sources; their members are taken from the uses
  in \<^verbatim>\<open>coins.cpp\<close>.

  Modelled from the spec: hashes are 256-bit words, an outpoint is the pair of a transaction
  hash and a 32-bit output index, names and scripts are byte strings.  \<^verbatim>\<open>size_t\<close> is
  taken as a 64-bit word, so the usage counter wraps as it does in the program.
\<close>

type_synonym uint256 = "256 word"
type_synonym COutPoint = "uint256 \<times> 32 word"
type_synonym valtype = "8 word list"
type_synonym CScript = "8 word list"

text \<open>
  Modelled from the spec: \<^verbatim>\<open>coins.h\<close>, \<^verbatim>\<open>primitives/transaction.h\<close> and \<^verbatim>\<open>script/script.h\<close>
  are not among the sources.  A coin is a transaction output (value in base units, locking
  script), the height of its block and a coinbase flag.  A spent coin carries the sentinel
  output: value \<open>-1\<close>, empty script.
\<close>

record CTxOut =
  nValue :: "64 word"
  scriptPubKey :: CScript

record Coin =
  out :: CTxOut
  fCoinBase :: bool
  nHeight :: "32 word"

definition CTxOut_null :: CTxOut where
  "CTxOut_null = \<lparr>nValue = - 1, scriptPubKey = []\<rparr>"

definition IsNull :: "CTxOut \<Rightarrow> bool" where
  "IsNull txout = (nValue txout = - 1)"

text \<open>The default-constructed coin \<^verbatim>\<open>Coin()\<close>, which is also the value of \<^verbatim>\<open>coinEmpty\<close>.\<close>

definition Coin_default :: Coin where
  "Coin_default = \<lparr>out = CTxOut_null, fCoinBase = False, nHeight = 0\<rparr>"

definition IsSpent :: "Coin \<Rightarrow> bool" where
  "IsSpent cn = IsNull (out cn)"

definition Clear :: "Coin \<Rightarrow> Coin" where
  "Clear cn = cn\<lparr>out := CTxOut_null, fCoinBase := False, nHeight := 0\<rparr>"

text \<open>
  Modelled from the spec: the coin reports the heap memory it owns, which is that of its
  script; the allocator's rounding is not in the sources, the model counts the script bytes.
  A cleared script owns nothing.
\<close>

definition DynamicMemoryUsage :: "Coin \<Rightarrow> 64 word" where
  "DynamicMemoryUsage cn = of_nat (length (scriptPubKey (out cn)))"

text \<open>
  Modelled from the spec: a script is unspendable when it is provably unredeemable, that is
  when it starts with the opcode \<^verbatim>\<open>OP_RETURN\<close> (byte \<open>0x6a\<close>) or exceeds the maximal
  script size of 10000 bytes.
\<close>

definition OP_RETURN :: "8 word" where
  "OP_RETURN = 0x6a"

definition MAX_SCRIPT_SIZE :: nat where
  "MAX_SCRIPT_SIZE = 10000"

definition IsUnspendable :: "CScript \<Rightarrow> bool" where
  "IsUnspendable s = ((s \<noteq> [] \<and> hd s = OP_RETURN) \<or> length s > MAX_SCRIPT_SIZE)"

text \<open>
  Modelled from the spec: a cache entry is a coin and a set of flags among \<open>DIRTY\<close> and
  \<open>FRESH\<close>.  The code tests and sets them with \<^verbatim>\<open>&\<close> and \<^verbatim>\<open>|\<close> and compares
  the flags with 0, so they are a byte with one bit each: \<^verbatim>\<open>DIRTY = (1 << 0)\<close>,
  \<^verbatim>\<open>FRESH = (1 << 1)\<close>.  An entry built from a coin alone has no flag; the default
  entry holds the default coin.
\<close>

record CCoinsCacheEntry =
  coin :: Coin
  flags :: "8 word"

definition DIRTY :: "8 word" where
  "DIRTY = push_bit 0 1"

definition FRESH :: "8 word" where
  "FRESH = push_bit 1 1"

definition CCoinsCacheEntry_default :: CCoinsCacheEntry where
  "CCoinsCacheEntry_default = \<lparr>coin = Coin_default, flags = 0\<rparr>"

text \<open>
  The coins map is an unordered map.  It is modelled as an association list whose order is
  the order in which the map is iterated; lookups go through \<^const>\<open>map_of\<close>, insertion and
  assignment through \<^const>\<open>AList.update\<close>, erasure through \<^const>\<open>AList.delete\<close>.
\<close>

type_synonym CCoinsMap = "(COutPoint \<times> CCoinsCacheEntry) list"

subsection \<open>Names\<close>

text \<open>
  Modelled from the spec: \<^verbatim>\<open>names/common.h\<close> is not among the sources.  The record of a
  name holds its value, the height of its last update and the output owning it.  The history
  of a name is a stack of earlier records, the top being the last element; \<open>push\<close> adds on
  top, \<open>pop\<close> asserts that the top is the expected record and removes it.
\<close>

record CNameData =
  name_value :: valtype
  name_height :: "32 word"
  name_prevout :: COutPoint

type_synonym CNameHistory = "CNameData list"

definition CNameHistory_push :: "CNameHistory \<Rightarrow> CNameData \<Rightarrow> CNameHistory" where
  "CNameHistory_push h d = h @ [d]"

text \<open>\<^const>\<open>None\<close> is the failed assertion.\<close>

definition CNameHistory_pop :: "CNameHistory \<Rightarrow> CNameData \<Rightarrow> CNameHistory option" where
  "CNameHistory_pop h d = (if h \<noteq> [] \<and> last h = d then Some (butlast h) else None)"

text \<open>
  Modelled from the spec: the name cache is three overlaid maps.  \<open>entries\<close> maps a name to
  its record or to a tombstone; \<open>histories\<close> maps a name to its history stack; \<open>expire\<close>
  is the set of (height, name) pairs with add and remove operations.  The cache is a delta
  over the parent's expire index, so a pair is marked \<^const>\<open>True\<close> when it was added and
  \<^const>\<open>False\<close> when it was removed.
\<close>

datatype name_entry = NameSet CNameData | NameDeleted

record CNameCache =
  entries :: "valtype \<rightharpoonup> name_entry"
  histories :: "valtype \<rightharpoonup> CNameHistory"
  expire :: "(32 word \<times> valtype) \<rightharpoonup> bool"

definition CNameCache_new :: CNameCache where
  "CNameCache_new = \<lparr>entries = Map.empty, histories = Map.empty, expire = Map.empty\<rparr>"

definition CNameCache_empty :: "CNameCache \<Rightarrow> bool" where
  "CNameCache_empty nc =
     (entries nc = Map.empty \<and> histories nc = Map.empty \<and> expire nc = Map.empty)"

definition CNameCache_get :: "CNameCache \<Rightarrow> valtype \<Rightarrow> CNameData option" where
  "CNameCache_get nc name =
     (case entries nc name of Some (NameSet d) \<Rightarrow> Some d | _ \<Rightarrow> None)"

definition CNameCache_isDeleted :: "CNameCache \<Rightarrow> valtype \<Rightarrow> bool" where
  "CNameCache_isDeleted nc name = (entries nc name = Some NameDeleted)"

definition CNameCache_set :: "CNameCache \<Rightarrow> valtype \<Rightarrow> CNameData \<Rightarrow> CNameCache" where
  "CNameCache_set nc name d = nc\<lparr>entries := (entries nc)(name \<mapsto> NameSet d)\<rparr>"

definition CNameCache_remove :: "CNameCache \<Rightarrow> valtype \<Rightarrow> CNameCache" where
  "CNameCache_remove nc name = nc\<lparr>entries := (entries nc)(name \<mapsto> NameDeleted)\<rparr>"

definition CNameCache_getHistory ::
  "CNameCache \<Rightarrow> valtype \<Rightarrow> CNameHistory \<Rightarrow> bool \<times> CNameHistory" where
  "CNameCache_getHistory nc name res =
     (case histories nc name of Some h \<Rightarrow> (True, h) | None \<Rightarrow> (False, res))"

definition CNameCache_setHistory :: "CNameCache \<Rightarrow> valtype \<Rightarrow> CNameHistory \<Rightarrow> CNameCache" where
  "CNameCache_setHistory nc name h = nc\<lparr>histories := (histories nc)(name \<mapsto> h)\<rparr>"

definition CNameCache_addExpireIndex :: "CNameCache \<Rightarrow> valtype \<Rightarrow> 32 word \<Rightarrow> CNameCache" where
  "CNameCache_addExpireIndex nc name height =
     nc\<lparr>expire := (expire nc)((height, name) \<mapsto> True)\<rparr>"

definition CNameCache_removeExpireIndex :: "CNameCache \<Rightarrow> valtype \<Rightarrow> 32 word \<Rightarrow> CNameCache" where
  "CNameCache_removeExpireIndex nc name height =
     nc\<lparr>expire := (expire nc)((height, name) \<mapsto> False)\<rparr>"

text \<open>The cache adds to the parent's answer the names it added at the height and takes away
  those it removed.\<close>

definition CNameCache_updateNamesForHeight ::
  "CNameCache \<Rightarrow> 32 word \<Rightarrow> valtype set \<Rightarrow> valtype set" where
  "CNameCache_updateNamesForHeight nc height names =
     {name. case expire nc (height, name) of None \<Rightarrow> name \<in> names | Some added \<Rightarrow> added}"

text \<open>Folding a child cache into this one: the child's entries, histories and expire marks
  override.\<close>

definition CNameCache_apply :: "CNameCache \<Rightarrow> CNameCache \<Rightarrow> CNameCache" where
  "CNameCache_apply nc child =
     \<lparr>entries = entries nc ++ entries child,
      histories = histories nc ++ histories child,
      expire = expire nc ++ expire child\<rparr>"

section \<open>Views\<close>

text \<open>
  A call either returns, throws a \<^verbatim>\<open>std::logic_error\<close> with its message, or fails an
  assertion.
\<close>

datatype 'a outcome = Returns 'a | Throws string | Aborts

text \<open>
  \<^verbatim>\<open>CCoinsView\<close> is an interface with virtual methods; a cache reaches its parent through
  the pointer \<^verbatim>\<open>base\<close>.  The parent is modelled by its state \<open>'b\<close> and the table of its
  methods.  Reading a coin or the best block may change the parent (its own cache is
  \<^verbatim>\<open>mutable\<close>), so these return the new state.  Parameters passed by reference are
  passed in and returned.  \<open>GetName\<close> returns \<^const>\<open>None\<close> for \<^verbatim>\<open>false\<close>; no caller
  reads the record after a failed call.
\<close>

record 'b CCoinsView =
  v_GetCoin :: "'b \<Rightarrow> COutPoint \<Rightarrow> Coin \<Rightarrow> (bool \<times> Coin) \<times> 'b"
  v_HaveCoin :: "'b \<Rightarrow> COutPoint \<Rightarrow> bool \<times> 'b"
  v_GetBestBlock :: "'b \<Rightarrow> uint256 \<times> 'b"
  v_GetName :: "'b \<Rightarrow> valtype \<Rightarrow> CNameData option"
  v_GetNameHistory :: "'b \<Rightarrow> valtype \<Rightarrow> CNameHistory \<Rightarrow> bool \<times> CNameHistory"
  v_GetNamesForHeight :: "'b \<Rightarrow> 32 word \<Rightarrow> valtype set \<Rightarrow> bool \<times> valtype set"
  v_BatchWrite ::
    "'b \<Rightarrow> CCoinsMap \<Rightarrow> uint256 \<Rightarrow> CNameCache \<Rightarrow> bool outcome \<times> CCoinsMap \<times> 'b"

text \<open>The methods of the base class \<^verbatim>\<open>CCoinsView\<close> itself; it has no state.\<close>

definition CCoinsView_GetCoin :: "unit \<Rightarrow> COutPoint \<Rightarrow> Coin \<Rightarrow> (bool \<times> Coin) \<times> unit" where
  "CCoinsView_GetCoin b outpoint cn = ((False, cn), b)"

definition CCoinsView_HaveCoin :: "unit \<Rightarrow> COutPoint \<Rightarrow> bool \<times> unit" where
  "CCoinsView_HaveCoin b outpoint =
     (case CCoinsView_GetCoin b outpoint Coin_default of ((r, cn), b') \<Rightarrow> (r, b'))"

definition CCoinsView_base :: "unit CCoinsView" where
  "CCoinsView_base =
     \<lparr>v_GetCoin = CCoinsView_GetCoin,
      v_HaveCoin = CCoinsView_HaveCoin,
      v_GetBestBlock = (\<lambda>b. (0, b)),
      v_GetName = (\<lambda>b name. None),
      v_GetNameHistory = (\<lambda>b name data. (False, data)),
      v_GetNamesForHeight = (\<lambda>b height names. (False, names)),
      v_BatchWrite = (\<lambda>b mapCoins hashBlockIn names. (Returns False, mapCoins, b))\<rparr>"

text \<open>\<^verbatim>\<open>CCoinsViewBacked\<close> forwards every call to its parent.\<close>

definition CCoinsViewBacked :: "'b CCoinsView \<Rightarrow> 'b CCoinsView" where
  "CCoinsViewBacked vt =
     \<lparr>v_GetCoin = v_GetCoin vt,
      v_HaveCoin = v_HaveCoin vt,
      v_GetBestBlock = v_GetBestBlock vt,
      v_GetName = v_GetName vt,
      v_GetNameHistory = v_GetNameHistory vt,
      v_GetNamesForHeight = v_GetNamesForHeight vt,
      v_BatchWrite = v_BatchWrite vt\<rparr>"

section \<open>The cache\<close>

record 'b CCoinsViewCache =
  base :: 'b
  hashBlock :: uint256
  cacheCoins :: CCoinsMap
  cacheNames :: CNameCache
  cachedCoinsUsage :: "64 word"

text \<open>The constructor: an empty cache over the parent, the counter at zero.\<close>

definition CCoinsViewCache_new :: "'b \<Rightarrow> 'b CCoinsViewCache" where
  "CCoinsViewCache_new baseIn =
     \<lparr>base = baseIn, hashBlock = 0, cacheCoins = [], cacheNames = CNameCache_new,
      cachedCoinsUsage = 0\<rparr>"

text \<open>The iterator returned by \<open>FetchCoin\<close> is the entry it points to, \<^const>\<open>None\<close> for
  \<^verbatim>\<open>end()\<close>.\<close>

definition FetchCoin ::
  "'b CCoinsView \<Rightarrow> 'b CCoinsViewCache \<Rightarrow> COutPoint \<Rightarrow> CCoinsCacheEntry option \<times> 'b CCoinsViewCache"
  where
  "FetchCoin vt c outpoint =
     (case map_of (cacheCoins c) outpoint of
        Some e \<Rightarrow> (Some e, c)
      | None \<Rightarrow>
          (case v_GetCoin vt (base c) outpoint Coin_default of
             ((found, tmp), b') \<Rightarrow>
               if \<not> found then (None, c\<lparr>base := b'\<rparr>)
               else
                 let ret = \<lparr>coin = tmp, flags = (if IsSpent tmp then FRESH else 0)\<rparr>
                 in (Some ret,
                     c\<lparr>base := b',
                       cacheCoins := AList.update outpoint ret (cacheCoins c),
                       cachedCoinsUsage := cachedCoinsUsage c + DynamicMemoryUsage tmp\<rparr>)))"

definition GetCoin ::
  "'b CCoinsView \<Rightarrow> 'b CCoinsViewCache \<Rightarrow> COutPoint \<Rightarrow> Coin \<Rightarrow> (bool \<times> Coin) \<times> 'b CCoinsViewCache"
  where
  "GetCoin vt c outpoint cn =
     (case FetchCoin vt c outpoint of
        (Some e, c') \<Rightarrow> ((\<not> IsSpent (coin e), coin e), c')
      | (None, c') \<Rightarrow> ((False, cn), c'))"

definition AddCoin ::
  "'b CCoinsViewCache \<Rightarrow> COutPoint \<Rightarrow> Coin \<Rightarrow> bool \<Rightarrow> unit outcome \<times> 'b CCoinsViewCache" where
  "AddCoin c outpoint cn possible_overwrite =
     (if IsSpent cn then (Aborts, c)
      else if IsUnspendable (scriptPubKey (out cn)) then (Returns (), c)
      else
        let inserted = (map_of (cacheCoins c) outpoint = None);
            it = (case map_of (cacheCoins c) outpoint of
                    None \<Rightarrow> CCoinsCacheEntry_default | Some e \<Rightarrow> e);
            c1 = (if inserted
                  then c\<lparr>cacheCoins := AList.update outpoint it (cacheCoins c)\<rparr>
                  else c\<lparr>cachedCoinsUsage := cachedCoinsUsage c - DynamicMemoryUsage (coin it)\<rparr>)
        in
          if \<not> possible_overwrite \<and> \<not> IsSpent (coin it)
          then (Throws ''Attempted to overwrite an unspent coin (when possible_overwrite is false)'',
                c1)
          else
            let fresh = (\<not> possible_overwrite \<and> \<not> (flags it AND DIRTY \<noteq> 0));
                it' = \<lparr>coin = cn, flags = flags it OR (DIRTY OR (if fresh then FRESH else 0))\<rparr>
            in (Returns (),
                c1\<lparr>cacheCoins := AList.update outpoint it' (cacheCoins c1),
                   cachedCoinsUsage := cachedCoinsUsage c1 + DynamicMemoryUsage cn\<rparr>))"

text \<open>\<^verbatim>\<open>emplace\<close> leaves an entry that is already there as it is; the counter is raised
  all the same.\<close>

definition EmplaceCoinInternalDANGER ::
  "'b CCoinsViewCache \<Rightarrow> COutPoint \<Rightarrow> Coin \<Rightarrow> 'b CCoinsViewCache" where
  "EmplaceCoinInternalDANGER c outpoint cn =
     c\<lparr>cachedCoinsUsage := cachedCoinsUsage c + DynamicMemoryUsage cn,
       cacheCoins := (case map_of (cacheCoins c) outpoint of
                        None \<Rightarrow> AList.update outpoint \<lparr>coin = cn, flags = DIRTY\<rparr> (cacheCoins c)
                      | Some e \<Rightarrow> cacheCoins c)\<rparr>"

text \<open>\<open>moveout\<close> tells whether the caller passed a pointer; the coin moved out is
  returned with the result.\<close>

definition SpendCoin ::
  "'b CCoinsView \<Rightarrow> 'b CCoinsViewCache \<Rightarrow> COutPoint \<Rightarrow> bool \<Rightarrow>
     (bool \<times> Coin option) \<times> 'b CCoinsViewCache" where
  "SpendCoin vt c outpoint moveout =
     (case FetchCoin vt c outpoint of
        (None, c') \<Rightarrow> ((False, None), c')
      | (Some it, c') \<Rightarrow>
          let c1 = c'\<lparr>cachedCoinsUsage := cachedCoinsUsage c' - DynamicMemoryUsage (coin it)\<rparr>;
              moved = (if moveout then Some (coin it) else None)
          in
            if flags it AND FRESH \<noteq> 0
            then ((True, moved), c1\<lparr>cacheCoins := AList.delete outpoint (cacheCoins c1)\<rparr>)
            else ((True, moved),
                  c1\<lparr>cacheCoins :=
                       AList.update outpoint \<lparr>coin = Clear (coin it), flags = flags it OR DIRTY\<rparr>
                         (cacheCoins c1)\<rparr>))"

definition AccessCoin ::
  "'b CCoinsView \<Rightarrow> 'b CCoinsViewCache \<Rightarrow> COutPoint \<Rightarrow> Coin \<times> 'b CCoinsViewCache" where
  "AccessCoin vt c outpoint =
     (case FetchCoin vt c outpoint of
        (None, c') \<Rightarrow> (Coin_default, c')
      | (Some it, c') \<Rightarrow> (coin it, c'))"

definition HaveCoin ::
  "'b CCoinsView \<Rightarrow> 'b CCoinsViewCache \<Rightarrow> COutPoint \<Rightarrow> bool \<times> 'b CCoinsViewCache" where
  "HaveCoin vt c outpoint =
     (case FetchCoin vt c outpoint of
        (None, c') \<Rightarrow> (False, c')
      | (Some it, c') \<Rightarrow> (\<not> IsSpent (coin it), c'))"

definition HaveCoinInCache :: "'b CCoinsViewCache \<Rightarrow> COutPoint \<Rightarrow> bool" where
  "HaveCoinInCache c outpoint =
     (case map_of (cacheCoins c) outpoint of
        None \<Rightarrow> False
      | Some it \<Rightarrow> \<not> IsSpent (coin it))"

definition GetBestBlock :: "'b CCoinsView \<Rightarrow> 'b CCoinsViewCache \<Rightarrow> uint256 \<times> 'b CCoinsViewCache" where
  "GetBestBlock vt c =
     (if hashBlock c = 0
      then (case v_GetBestBlock vt (base c) of
              (h, b') \<Rightarrow> (h, c\<lparr>base := b', hashBlock := h\<rparr>))
      else (hashBlock c, c))"

definition SetBestBlock :: "'b CCoinsViewCache \<Rightarrow> uint256 \<Rightarrow> 'b CCoinsViewCache" where
  "SetBestBlock c hashBlockIn = c\<lparr>hashBlock := hashBlockIn\<rparr>"

definition Uncache :: "'b CCoinsViewCache \<Rightarrow> COutPoint \<Rightarrow> 'b CCoinsViewCache" where
  "Uncache c outpoint =
     (case map_of (cacheCoins c) outpoint of
        None \<Rightarrow> c
      | Some it \<Rightarrow>
          if flags it = 0
          then c\<lparr>cachedCoinsUsage := cachedCoinsUsage c - DynamicMemoryUsage (coin it),
                 cacheCoins := AList.delete outpoint (cacheCoins c)\<rparr>
          else c)"

definition GetCacheSize :: "'b CCoinsViewCache \<Rightarrow> nat" where
  "GetCacheSize c = length (cacheCoins c)"

text \<open>
  The loop of \<open>BatchWrite\<close> over the child's map.  Every entry visited is erased from the
  child's map by the loop header, also after \<^verbatim>\<open>continue\<close>; when the loop throws, the entry
  at hand and those behind it are still in the child's map.  The result is the outcome, what
  is left of the child's map, and the cache.
\<close>

fun BatchWrite_loop ::
  "CCoinsMap \<Rightarrow> 'b CCoinsViewCache \<Rightarrow> unit outcome \<times> CCoinsMap \<times> 'b CCoinsViewCache" where
  "BatchWrite_loop [] c = (Returns (), [], c)"
| "BatchWrite_loop ((k, it) # mapCoins) c =
     (if \<not> (flags it AND DIRTY \<noteq> 0) then BatchWrite_loop mapCoins c
      else
        case map_of (cacheCoins c) k of
          None \<Rightarrow>
            if \<not> (flags it AND FRESH \<noteq> 0 \<and> IsSpent (coin it))
            then
              BatchWrite_loop mapCoins
                (c\<lparr>cacheCoins :=
                     AList.update k
                       \<lparr>coin = coin it,
                        flags = (if flags it AND FRESH \<noteq> 0 then DIRTY OR FRESH else DIRTY)\<rparr>
                       (cacheCoins c),
                   cachedCoinsUsage := cachedCoinsUsage c + DynamicMemoryUsage (coin it)\<rparr>)
            else BatchWrite_loop mapCoins c
        | Some itUs \<Rightarrow>
            if flags it AND FRESH \<noteq> 0 \<and> \<not> IsSpent (coin itUs)
            then (Throws ''FRESH flag misapplied to coin that exists in parent cache'',
                  (k, it) # mapCoins, c)
            else if flags itUs AND FRESH \<noteq> 0 \<and> IsSpent (coin it)
            then
              BatchWrite_loop mapCoins
                (c\<lparr>cachedCoinsUsage := cachedCoinsUsage c - DynamicMemoryUsage (coin itUs),
                   cacheCoins := AList.delete k (cacheCoins c)\<rparr>)
            else
              BatchWrite_loop mapCoins
                (c\<lparr>cachedCoinsUsage :=
                     cachedCoinsUsage c - DynamicMemoryUsage (coin itUs)
                       + DynamicMemoryUsage (coin it),
                   cacheCoins :=
                     AList.update k \<lparr>coin = coin it, flags = flags itUs OR DIRTY\<rparr>
                       (cacheCoins c)\<rparr>))"

definition BatchWrite ::
  "'b CCoinsViewCache \<Rightarrow> CCoinsMap \<Rightarrow> uint256 \<Rightarrow> CNameCache \<Rightarrow>
     bool outcome \<times> CCoinsMap \<times> 'b CCoinsViewCache" where
  "BatchWrite c mapCoins hashBlockIn names =
     (case BatchWrite_loop mapCoins c of
        (Returns u, mapCoins', c') \<Rightarrow>
          (Returns True, mapCoins',
           c'\<lparr>hashBlock := hashBlockIn,
              cacheNames := CNameCache_apply (cacheNames c') names\<rparr>)
      | (Throws msg, mapCoins', c') \<Rightarrow> (Throws msg, mapCoins', c')
      | (Aborts, mapCoins', c') \<Rightarrow> (Aborts, mapCoins', c'))"

text \<open>When the parent's \<open>BatchWrite\<close> throws, the statements after the call are not run:
  the map is what the parent left of it and the counter is not reset.\<close>

definition Flush :: "'b CCoinsView \<Rightarrow> 'b CCoinsViewCache \<Rightarrow> bool outcome \<times> 'b CCoinsViewCache" where
  "Flush vt c =
     (if hashBlock c = 0 \<and> cacheCoins c = [] \<and> CNameCache_empty (cacheNames c)
      then (Returns True, c)
      else
        case v_BatchWrite vt (base c) (cacheCoins c) (hashBlock c) (cacheNames c) of
          (Returns fOk, mapCoins', b') \<Rightarrow>
            (Returns fOk,
             c\<lparr>base := b', cacheCoins := [], cachedCoinsUsage := 0,
               cacheNames := CNameCache_new\<rparr>)
        | (Throws msg, mapCoins', b') \<Rightarrow> (Throws msg, c\<lparr>base := b', cacheCoins := mapCoins'\<rparr>)
        | (Aborts, mapCoins', b') \<Rightarrow> (Aborts, c\<lparr>base := b', cacheCoins := mapCoins'\<rparr>))"

text \<open>The transaction is given by its coinbase flag and the outpoints its inputs spend.\<close>

fun HaveInputs_loop ::
  "'b CCoinsView \<Rightarrow> 'b CCoinsViewCache \<Rightarrow> COutPoint list \<Rightarrow> bool \<times> 'b CCoinsViewCache" where
  "HaveInputs_loop vt c [] = (True, c)"
| "HaveInputs_loop vt c (prevout # vin) =
     (case HaveCoin vt c prevout of
        (r, c') \<Rightarrow> if \<not> r then (False, c') else HaveInputs_loop vt c' vin)"

definition HaveInputs ::
  "'b CCoinsView \<Rightarrow> 'b CCoinsViewCache \<Rightarrow> bool \<Rightarrow> COutPoint list \<Rightarrow> bool \<times> 'b CCoinsViewCache"
  where
  "HaveInputs vt c isCoinBase vin =
     (if \<not> isCoinBase then HaveInputs_loop vt c vin else (True, c))"

definition ReallocateCache :: "'b CCoinsViewCache \<Rightarrow> unit outcome \<times> 'b CCoinsViewCache" where
  "ReallocateCache c =
     (if length (cacheCoins c) = 0 then (Returns (), c\<lparr>cacheCoins := []\<rparr>) else (Aborts, c))"

subsection \<open>Names in the cache\<close>

definition GetName :: "'b CCoinsView \<Rightarrow> 'b CCoinsViewCache \<Rightarrow> valtype \<Rightarrow> CNameData option" where
  "GetName vt c name =
     (if CNameCache_isDeleted (cacheNames c) name then None
      else case CNameCache_get (cacheNames c) name of
             Some d \<Rightarrow> Some d
           | None \<Rightarrow> v_GetName vt (base c) name)"

definition GetNameHistory ::
  "'b CCoinsView \<Rightarrow> 'b CCoinsViewCache \<Rightarrow> valtype \<Rightarrow> CNameHistory \<Rightarrow> bool \<times> CNameHistory" where
  "GetNameHistory vt c name data =
     (case CNameCache_getHistory (cacheNames c) name data of
        (True, h) \<Rightarrow> (True, h)
      | (False, data') \<Rightarrow> v_GetNameHistory vt (base c) name data')"

definition GetNamesForHeight ::
  "'b CCoinsView \<Rightarrow> 'b CCoinsViewCache \<Rightarrow> 32 word \<Rightarrow> valtype set \<Rightarrow> bool \<times> valtype set" where
  "GetNamesForHeight vt c height names =
     (case v_GetNamesForHeight vt (base c) height names of
        (False, names') \<Rightarrow> (False, names')
      | (True, names') \<Rightarrow>
          (True, CNameCache_updateNamesForHeight (cacheNames c) height names'))"

text \<open>\<open>fNameHistory\<close> is the global switch for keeping name histories.\<close>

definition SetName ::
  "'b CCoinsView \<Rightarrow> bool \<Rightarrow> 'b CCoinsViewCache \<Rightarrow> valtype \<Rightarrow> CNameData \<Rightarrow> bool \<Rightarrow>
     unit outcome \<times> 'b CCoinsViewCache" where
  "SetName vt fNameHistory c name data undo =
     (let finish = (\<lambda>c'.
            (Returns (),
             c'\<lparr>cacheNames :=
                  CNameCache_addExpireIndex (CNameCache_set (cacheNames c') name data)
                    name (name_height data)\<rparr>))
      in
        case GetName vt c name of
          Some oldData \<Rightarrow>
            let c1 = c\<lparr>cacheNames :=
                         CNameCache_removeExpireIndex (cacheNames c) name (name_height oldData)\<rparr>
            in
              if fNameHistory
              then
                (case GetNameHistory vt c1 name [] of
                   (found, history) \<Rightarrow>
                     if \<not> found \<and> history \<noteq> [] then (Aborts, c1)
                     else if undo
                     then (case CNameHistory_pop history data of
                             None \<Rightarrow> (Aborts, c1)
                           | Some history' \<Rightarrow>
                               finish (c1\<lparr>cacheNames :=
                                            CNameCache_setHistory (cacheNames c1) name history'\<rparr>))
                     else finish (c1\<lparr>cacheNames :=
                                       CNameCache_setHistory (cacheNames c1) name
                                         (CNameHistory_push history oldData)\<rparr>))
              else finish c1
        | None \<Rightarrow> if undo then (Aborts, c) else finish c)"

definition DeleteName ::
  "'b CCoinsView \<Rightarrow> bool \<Rightarrow> 'b CCoinsViewCache \<Rightarrow> valtype \<Rightarrow> unit outcome \<times> 'b CCoinsViewCache"
  where
  "DeleteName vt fNameHistory c name =
     (case GetName vt c name of
        None \<Rightarrow> (Aborts, c)
      | Some oldData \<Rightarrow>
          let c1 = c\<lparr>cacheNames :=
                       CNameCache_removeExpireIndex (cacheNames c) name (name_height oldData)\<rparr>
          in
            if fNameHistory \<and>
               \<not> (case GetNameHistory vt c1 name [] of (found, history) \<Rightarrow> \<not> found \<or> history = [])
            then (Aborts, c1)
            else (Returns (), c1\<lparr>cacheNames := CNameCache_remove (cacheNames c1) name\<rparr>))"

subsection \<open>A cache as the parent of another cache\<close>

definition CCoinsViewCache_view :: "'b CCoinsView \<Rightarrow> ('b CCoinsViewCache) CCoinsView" where
  "CCoinsViewCache_view vt =
     \<lparr>v_GetCoin = GetCoin vt,
      v_HaveCoin = HaveCoin vt,
      v_GetBestBlock = GetBestBlock vt,
      v_GetName = GetName vt,
      v_GetNameHistory = GetNameHistory vt,
      v_GetNamesForHeight = GetNamesForHeight vt,
      v_BatchWrite = BatchWrite\<rparr>"

subsection \<open>The public calls\<close>

text \<open>
  One constructor for each public method of the cache in \<^verbatim>\<open>coins.cpp\<close>; \<open>exec\<close> gives
  the way the call ends and the cache it leaves.  The methods that only read the members (the
  last group) leave the cache as it is.  The free functions \<^verbatim>\<open>AddCoins\<close> and
  \<^verbatim>\<open>AccessByTxid\<close> are sequences of these calls.
\<close>

datatype call =
    Call_GetCoin COutPoint
  | Call_HaveCoin COutPoint
  | Call_AccessCoin COutPoint
  | Call_HaveInputs bool "COutPoint list"
  | Call_AddCoin COutPoint Coin bool
  | Call_EmplaceCoinInternalDANGER COutPoint Coin
  | Call_SpendCoin COutPoint bool
  | Call_Uncache COutPoint
  | Call_GetBestBlock
  | Call_SetBestBlock uint256
  | Call_SetName valtype CNameData bool
  | Call_DeleteName valtype
  | Call_BatchWrite CCoinsMap uint256 CNameCache
  | Call_Flush
  | Call_ReallocateCache
  | Call_HaveCoinInCache COutPoint
  | Call_GetName valtype
  | Call_GetNameHistory valtype
  | Call_GetNamesForHeight "32 word"
  | Call_IterateNames
  | Call_GetCacheSize
  | Call_DynamicMemoryUsage

definition ends :: "'a outcome \<Rightarrow> unit outcome" where
  "ends r = (case r of Returns x \<Rightarrow> Returns () | Throws msg \<Rightarrow> Throws msg | Aborts \<Rightarrow> Aborts)"

fun exec ::
  "'b CCoinsView \<Rightarrow> bool \<Rightarrow> call \<Rightarrow> 'b CCoinsViewCache \<Rightarrow> unit outcome \<times> 'b CCoinsViewCache"
  where
  "exec vt h (Call_GetCoin outpoint) c = (Returns (), snd (GetCoin vt c outpoint Coin_default))"
| "exec vt h (Call_HaveCoin outpoint) c = (Returns (), snd (HaveCoin vt c outpoint))"
| "exec vt h (Call_AccessCoin outpoint) c = (Returns (), snd (AccessCoin vt c outpoint))"
| "exec vt h (Call_HaveInputs isCoinBase vin) c = (Returns (), snd (HaveInputs vt c isCoinBase vin))"
| "exec vt h (Call_AddCoin outpoint cn possible_overwrite) c =
     AddCoin c outpoint cn possible_overwrite"
| "exec vt h (Call_EmplaceCoinInternalDANGER outpoint cn) c =
     (Returns (), EmplaceCoinInternalDANGER c outpoint cn)"
| "exec vt h (Call_SpendCoin outpoint moveout) c =
     (Returns (), snd (SpendCoin vt c outpoint moveout))"
| "exec vt h (Call_Uncache outpoint) c = (Returns (), Uncache c outpoint)"
| "exec vt h Call_GetBestBlock c = (Returns (), snd (GetBestBlock vt c))"
| "exec vt h (Call_SetBestBlock hashBlockIn) c = (Returns (), SetBestBlock c hashBlockIn)"
| "exec vt h (Call_SetName name data undo) c = SetName vt h c name data undo"
| "exec vt h (Call_DeleteName name) c = DeleteName vt h c name"
| "exec vt h (Call_BatchWrite mapCoins hashBlockIn names) c =
     (case BatchWrite c mapCoins hashBlockIn names of (r, mapCoins', c') \<Rightarrow> (ends r, c'))"
| "exec vt h Call_Flush c = (case Flush vt c of (r, c') \<Rightarrow> (ends r, c'))"
| "exec vt h Call_ReallocateCache c = ReallocateCache c"
| "exec vt h (Call_HaveCoinInCache outpoint) c = (Returns (), c)"
| "exec vt h (Call_GetName name) c = (Returns (), c)"
| "exec vt h (Call_GetNameHistory name) c = (Returns (), c)"
| "exec vt h (Call_GetNamesForHeight height) c = (Returns (), c)"
| "exec vt h Call_IterateNames c = (Returns (), c)"
| "exec vt h Call_GetCacheSize c = (Returns (), c)"
| "exec vt h Call_DynamicMemoryUsage c = (Returns (), c)"

text \<open>A sequence of calls; it stops at the first call that does not return.\<close>

fun run ::
  "'b CCoinsView \<Rightarrow> bool \<Rightarrow> call list \<Rightarrow> 'b CCoinsViewCache \<Rightarrow> unit outcome \<times> 'b CCoinsViewCache"
  where
  "run vt h [] c = (Returns (), c)"
| "run vt h (x # xs) c =
     (case exec vt h x c of
        (Returns u, c') \<Rightarrow> run vt h xs c'
      | (r, c') \<Rightarrow> (r, c'))"

section \<open>Invariants of the coins map\<close>

text \<open>No entry is flagged \<open>FRESH\<close> while holding a spent coin.\<close>

definition no_fresh_spent :: "CCoinsMap \<Rightarrow> bool" where
  "no_fresh_spent m =
     list_all (\<lambda>x. \<not> (flags (snd x) AND FRESH \<noteq> 0 \<and> IsSpent (coin (snd x)))) m"

text \<open>The counter equals the sum of the usage of the coins in the map, which has each
  outpoint once.  The sum is taken in \<^verbatim>\<open>size_t\<close>, as the counter is.\<close>

definition coins_usage :: "CCoinsMap \<Rightarrow> 64 word" where
  "coins_usage m = sum_list (map (\<lambda>x. DynamicMemoryUsage (coin (snd x))) m)"

definition usage_ok :: "'b CCoinsViewCache \<Rightarrow> bool" where
  "usage_ok c =
     (distinct (map fst (cacheCoins c)) \<and> cachedCoinsUsage c = coins_usage (cacheCoins c))"

section \<open>Sample values\<close>

text \<open>Concrete coins and caches at which the theorems below are instantiated.\<close>

definition ex_outpoint :: COutPoint where
  "ex_outpoint = (1, 0)"

definition ex_coin :: Coin where
  "ex_coin = \<lparr>out = \<lparr>nValue = 50, scriptPubKey = [0x51]\<rparr>, fCoinBase = False, nHeight = 1\<rparr>"

definition ex_unspendable :: Coin where
  "ex_unspendable =
     \<lparr>out = \<lparr>nValue = 7, scriptPubKey = [0x6a]\<rparr>, fCoinBase = False, nHeight = 1\<rparr>"

definition ex_spent_unspendable :: Coin where
  "ex_spent_unspendable =
     \<lparr>out = \<lparr>nValue = - 1, scriptPubKey = [0x6a]\<rparr>, fCoinBase = False, nHeight = 1\<rparr>"

text \<open>The cache over the base view after \<open>AddCoin(ex_outpoint, ex_coin, false)\<close>.\<close>

definition ex_cache :: "unit CCoinsViewCache" where
  "ex_cache =
     \<lparr>base = (), hashBlock = 0,
      cacheCoins = [(ex_outpoint, \<lparr>coin = ex_coin, flags = DIRTY OR FRESH\<rparr>)],
      cacheNames = CNameCache_new, cachedCoinsUsage = 1\<rparr>"

text \<open>A cache over an empty cache, holding one new coin.\<close>

definition ex_child :: "unit CCoinsViewCache CCoinsViewCache" where
  "ex_child =
     \<lparr>base = CCoinsViewCache_new (), hashBlock = 0,
      cacheCoins = [(ex_outpoint, \<lparr>coin = ex_coin, flags = DIRTY OR FRESH\<rparr>)],
      cacheNames = CNameCache_new, cachedCoinsUsage = 1\<rparr>"

definition ex_spent_fresh_dirty :: CCoinsCacheEntry where
  "ex_spent_fresh_dirty = \<lparr>coin = Coin_default, flags = DIRTY OR FRESH\<rparr>"

definition ex_spent_dirty :: CCoinsCacheEntry where
  "ex_spent_dirty = \<lparr>coin = Coin_default, flags = DIRTY\<rparr>"

definition ex_coin2 :: Coin where
  "ex_coin2 =
     \<lparr>out = \<lparr>nValue = 9, scriptPubKey = [0x52, 0x53]\<rparr>, fCoinBase = False, nHeight = 2\<rparr>"

text \<open>An empty cache whose parent is the cache holding \<open>ex_coin\<close>.\<close>

definition ex_over_cache :: "unit CCoinsViewCache CCoinsViewCache" where
  "ex_over_cache = CCoinsViewCache_new ex_cache"

text \<open>A cache whose best block was set, and an empty cache above it.\<close>

definition ex_best_parent :: "unit CCoinsViewCache" where
  "ex_best_parent = SetBestBlock (CCoinsViewCache_new ()) 5"

definition ex_best_child :: "unit CCoinsViewCache CCoinsViewCache" where
  "ex_best_child = CCoinsViewCache_new ex_best_parent"

text \<open>A backing store that holds an empty, that is spent, entry for every outpoint.\<close>

definition ex_spent_parent :: "unit CCoinsView" where
  "ex_spent_parent =
     CCoinsView_base\<lparr>v_GetCoin := (\<lambda>b outpoint cn. ((True, Coin_default), b))\<rparr>"

text \<open>A coin whose script has 40 bytes, and the cache over the base view after
  \<open>AddCoin(ex_outpoint, ex_big_coin, false)\<close>.\<close>

definition ex_big_coin :: Coin where
  "ex_big_coin =
     \<lparr>out = \<lparr>nValue = 50, scriptPubKey = replicate 40 0x51\<rparr>, fCoinBase = False, nHeight = 1\<rparr>"

definition ex_big_cache :: "unit CCoinsViewCache" where
  "ex_big_cache =
     \<lparr>base = (), hashBlock = 0,
      cacheCoins = [(ex_outpoint, \<lparr>coin = ex_big_coin, flags = DIRTY OR FRESH\<rparr>)],
      cacheNames = CNameCache_new, cachedCoinsUsage = 40\<rparr>"

text \<open>A backing store that holds one name, and the record a new update gives it.\<close>

definition ex_name :: valtype where
  "ex_name = [0x64]"

definition ex_old :: CNameData where
  "ex_old = \<lparr>name_value = [1], name_height = 7, name_prevout = ex_outpoint\<rparr>"

definition ex_new :: CNameData where
  "ex_new = \<lparr>name_value = [2], name_height = 9, name_prevout = ex_outpoint\<rparr>"

definition ex_name_parent :: "unit CCoinsView" where
  "ex_name_parent =
     CCoinsView_base
       \<lparr>v_GetName := (\<lambda>b name. if name = ex_name then Some ex_old else None),
        v_GetNamesForHeight :=
          (\<lambda>b height names. (True, if height = 7 then insert ex_name names else names))\<rparr>"

text \<open>A backing store that holds the same name but lists it at no height.\<close>

definition ex_unlisted_parent :: "unit CCoinsView" where
  "ex_unlisted_parent =
     CCoinsView_base
       \<lparr>v_GetName := (\<lambda>b name. if name = ex_name then Some ex_old else None),
        v_GetNamesForHeight := (\<lambda>b height names. (True, names))\<rparr>"

section \<open>Flags and coins\<close>

lemma flag_DIRTY_bit: "(f AND DIRTY \<noteq> 0) = bit f 0"
  using and_exp_eq_0_iff_not_bit [of f 0] by (simp add: DIRTY_def)

lemma flag_FRESH_bit: "(f AND FRESH \<noteq> 0) = bit f (Suc 0)"
  using and_exp_eq_0_iff_not_bit [of f 1] by (simp add: FRESH_def)

lemma flag_DIRTY_bit0: "(f AND DIRTY = 0) = (\<not> bit f 0)"
  using flag_DIRTY_bit [of f] by blast

lemma flag_FRESH_bit0: "(f AND FRESH = 0) = (\<not> bit f (Suc 0))"
  using flag_FRESH_bit [of f] by blast

lemma bit_flag_consts:
  "bit DIRTY 0" "\<not> bit DIRTY (Suc 0)" "bit FRESH (Suc 0)" "\<not> bit FRESH 0"
  by (simp_all add: DIRTY_def FRESH_def bit_1_iff bit_2_iff)

lemma flag_nonzero: "DIRTY \<noteq> 0" "FRESH \<noteq> 0" "DIRTY \<noteq> FRESH" "FRESH \<noteq> DIRTY"
  by (simp_all add: DIRTY_def FRESH_def)

lemmas flag_bits =
  flag_DIRTY_bit flag_FRESH_bit flag_DIRTY_bit0 flag_FRESH_bit0 bit_or_iff bit_flag_consts
  flag_nonzero

lemma IsSpent_default: "IsSpent Coin_default"
  by (simp add: IsSpent_def IsNull_def Coin_default_def CTxOut_null_def)

lemma IsSpent_Clear: "IsSpent (Clear cn)"
  by (simp add: IsSpent_def IsNull_def Clear_def CTxOut_null_def)

lemma usage_Clear: "DynamicMemoryUsage (Clear cn) = 0"
  by (simp add: DynamicMemoryUsage_def Clear_def CTxOut_null_def)

lemma ex_coin_ok: "\<not> IsSpent ex_coin" "\<not> IsUnspendable (scriptPubKey (out ex_coin))"
  by (simp_all add: ex_coin_def IsSpent_def IsNull_def IsUnspendable_def OP_RETURN_def
      MAX_SCRIPT_SIZE_def)

lemma ex_coin2_ok: "\<not> IsSpent ex_coin2" "\<not> IsUnspendable (scriptPubKey (out ex_coin2))"
  by (simp_all add: ex_coin2_def IsSpent_def IsNull_def IsUnspendable_def OP_RETURN_def
      MAX_SCRIPT_SIZE_def)

lemma ex_coin_usage: "DynamicMemoryUsage ex_coin = 1"
  by (simp add: DynamicMemoryUsage_def ex_coin_def)

lemma ex_unspendable_ok:
  "\<not> IsSpent ex_unspendable" "IsUnspendable (scriptPubKey (out ex_unspendable))"
  "IsSpent ex_spent_unspendable" "IsUnspendable (scriptPubKey (out ex_spent_unspendable))"
  by (simp_all add: ex_unspendable_def ex_spent_unspendable_def IsSpent_def IsNull_def
      IsUnspendable_def OP_RETURN_def)

lemma ex_cache_AddCoin:
  "AddCoin (CCoinsViewCache_new ()) ex_outpoint ex_coin False = (Returns (), ex_cache)"
  by (simp add: ex_coin_ok AddCoin_def Let_def CCoinsViewCache_new_def
      CCoinsCacheEntry_default_def IsSpent_default flag_bits ex_coin_usage ex_cache_def)

section \<open>AddCoin\<close>

text \<open>
  C1 (as amended).  When \<open>AddCoin\<close> returns for a coin with a spendable script, the entry at
  the outpoint holds the coin and has \<open>DIRTY\<close> set.  It has \<open>FRESH\<close> set exactly when
  \<open>possible_overwrite\<close> is false and the slot was absent or not \<open>DIRTY\<close>, or when the slot was
  there with \<open>FRESH\<close> already set.  With \<open>possible_overwrite\<close> true the call adds \<open>DIRTY\<close>
  only.
\<close>

theorem AddCoin_flags:
  assumes "fst (AddCoin c outpoint cn possible_overwrite) = Returns ()"
    and "\<not> IsUnspendable (scriptPubKey (out cn))"
  shows "\<exists>e. map_of (cacheCoins (snd (AddCoin c outpoint cn possible_overwrite))) outpoint = Some e
           \<and> coin e = cn
           \<and> flags e AND DIRTY \<noteq> 0
           \<and> ((flags e AND FRESH \<noteq> 0) =
                (case map_of (cacheCoins c) outpoint of
                   None \<Rightarrow> \<not> possible_overwrite
                 | Some e0 \<Rightarrow>
                     (\<not> possible_overwrite \<and> flags e0 AND DIRTY = 0) \<or> flags e0 AND FRESH \<noteq> 0))"
  using assms
  by (auto simp: AddCoin_def Let_def update_conv' CCoinsCacheEntry_default_def flag_bits
      split: if_splits option.splits)

theorem AddCoin_flags_witness:
  "fst (AddCoin (CCoinsViewCache_new ()) ex_outpoint ex_coin False) = Returns ()
   \<and> \<not> IsUnspendable (scriptPubKey (out ex_coin))
   \<and> (\<exists>e. map_of (cacheCoins (snd (AddCoin (CCoinsViewCache_new ()) ex_outpoint ex_coin False)))
             ex_outpoint = Some e
          \<and> coin e = ex_coin \<and> flags e AND DIRTY \<noteq> 0 \<and> flags e AND FRESH \<noteq> 0)"
proof -
  have r: "fst (AddCoin (CCoinsViewCache_new ()) ex_outpoint ex_coin False) = Returns ()"
    by (simp add: ex_cache_AddCoin)
  have n: "map_of (cacheCoins (CCoinsViewCache_new ())) ex_outpoint = None"
    by (simp add: CCoinsViewCache_new_def)
  show ?thesis
    using AddCoin_flags [OF r ex_coin_ok(2)] r ex_coin_ok(2) by (simp add: n)
qed

text \<open>
  C1 as stated fails.  On an empty cache the slot did not pre-exist, yet with
  \<open>possible_overwrite\<close> true the new entry is \<open>DIRTY\<close> only.  And on a slot that
  pre-existed as \<open>DIRTY\<close> and \<open>FRESH\<close>, \<open>FRESH\<close> is still set after the call.
\<close>

theorem AddCoin_flags_counterexample:
  "\<not> IsSpent ex_coin \<and> \<not> IsUnspendable (scriptPubKey (out ex_coin))
   \<and> map_of (cacheCoins (CCoinsViewCache_new ())) ex_outpoint = None
   \<and> AddCoin (CCoinsViewCache_new ()) ex_outpoint ex_coin True =
       (Returns (),
        (CCoinsViewCache_new ())
          \<lparr>cacheCoins := [(ex_outpoint, \<lparr>coin = ex_coin, flags = DIRTY\<rparr>)],
           cachedCoinsUsage := 1\<rparr>)
   \<and> DIRTY AND FRESH = 0
   \<and> \<not> IsSpent ex_coin2 \<and> \<not> IsUnspendable (scriptPubKey (out ex_coin2))
   \<and> map_of (cacheCoins ex_cache) ex_outpoint = Some \<lparr>coin = ex_coin, flags = DIRTY OR FRESH\<rparr>
   \<and> (DIRTY OR FRESH) AND DIRTY \<noteq> 0
   \<and> AddCoin ex_cache ex_outpoint ex_coin2 True =
       (Returns (),
        ex_cache
          \<lparr>cacheCoins := [(ex_outpoint, \<lparr>coin = ex_coin2, flags = DIRTY OR FRESH\<rparr>)],
           cachedCoinsUsage := 2\<rparr>)
   \<and> (DIRTY OR FRESH) AND FRESH \<noteq> 0"
proof -
  have o: "(DIRTY OR FRESH) OR DIRTY = DIRTY OR FRESH"
    by (simp add: ac_simps)
  have u: "DynamicMemoryUsage ex_coin2 = 2"
    by (simp add: DynamicMemoryUsage_def ex_coin2_def)
  show ?thesis
    by (simp add: ex_coin_ok ex_coin2_ok AddCoin_def Let_def CCoinsViewCache_new_def
      CCoinsCacheEntry_default_def IsSpent_default flag_bits ex_coin_usage ex_cache_def o u)
qed

text \<open>
  C10 (as amended).  \<open>AddCoin\<close> of an unspent coin whose script is unspendable returns and
  leaves the cache as it was, whatever \<open>possible_overwrite\<close> is: nothing is stored and the
  counter keeps its value.  \<open>HaveCoin\<close> then answers as it would have before the call; it
  answers false when the cache holds no live coin at the outpoint and the parent reports none.
\<close>

theorem AddCoin_unspendable:
  assumes "\<not> IsSpent cn" and "IsUnspendable (scriptPubKey (out cn))"
  shows "AddCoin c outpoint cn possible_overwrite = (Returns (), c)
    \<and> HaveCoin vt (snd (AddCoin c outpoint cn possible_overwrite)) outpoint = HaveCoin vt c outpoint
    \<and> ((case map_of (cacheCoins c) outpoint of
           Some e \<Rightarrow> IsSpent (coin e)
         | None \<Rightarrow> \<not> fst (fst (v_GetCoin vt (base c) outpoint Coin_default))
                    \<or> IsSpent (snd (fst (v_GetCoin vt (base c) outpoint Coin_default))))
        \<longrightarrow> \<not> fst (HaveCoin vt (snd (AddCoin c outpoint cn possible_overwrite)) outpoint))"
  using assms
  by (auto simp: AddCoin_def HaveCoin_def FetchCoin_def Let_def split: option.splits prod.splits)

theorem AddCoin_unspendable_witness:
  "\<not> IsSpent ex_unspendable \<and> IsUnspendable (scriptPubKey (out ex_unspendable))
   \<and> AddCoin (CCoinsViewCache_new ()) ex_outpoint ex_unspendable False
       = (Returns (), CCoinsViewCache_new ())
   \<and> \<not> fst (HaveCoin CCoinsView_base
             (snd (AddCoin (CCoinsViewCache_new ()) ex_outpoint ex_unspendable False))
             ex_outpoint)"
proof -
  have pre:
    "case map_of (cacheCoins (CCoinsViewCache_new ())) ex_outpoint of
       Some e \<Rightarrow> IsSpent (coin e)
     | None \<Rightarrow>
         \<not> fst (fst (v_GetCoin CCoinsView_base (base (CCoinsViewCache_new ())) ex_outpoint
                       Coin_default))
         \<or> IsSpent (snd (fst (v_GetCoin CCoinsView_base (base (CCoinsViewCache_new ()))
                                ex_outpoint Coin_default)))"
    by (simp add: CCoinsViewCache_new_def CCoinsView_base_def CCoinsView_GetCoin_def)
  show ?thesis
    using AddCoin_unspendable [OF ex_unspendable_ok(1) ex_unspendable_ok(2),
        of "CCoinsViewCache_new ()" ex_outpoint False CCoinsView_base] pre ex_unspendable_ok
    by blast
qed

text \<open>
  C10 as stated fails twice.  The parent holds nothing, the cache holds a live coin at the
  outpoint: the unspendable coin is dropped and \<open>HaveCoin\<close> answers true.  And a coin that
  is spent fails the assertion at the head of \<open>AddCoin\<close> before its script is looked at.
\<close>

theorem AddCoin_unspendable_counterexample:
  "IsUnspendable (scriptPubKey (out ex_unspendable))
   \<and> \<not> fst (fst (v_GetCoin CCoinsView_base (base ex_cache) ex_outpoint Coin_default))
   \<and> fst (HaveCoin CCoinsView_base (snd (AddCoin ex_cache ex_outpoint ex_unspendable True))
           ex_outpoint)
   \<and> IsUnspendable (scriptPubKey (out ex_spent_unspendable))
   \<and> fst (AddCoin (CCoinsViewCache_new ()) ex_outpoint ex_spent_unspendable True) = Aborts"
  by (simp add: ex_unspendable_ok AddCoin_def CCoinsView_base_def CCoinsView_GetCoin_def
      HaveCoin_def FetchCoin_def ex_cache_def ex_coin_ok)

section \<open>Name cache\<close>

lemma CNameCache_apply_new: "CNameCache_apply nc CNameCache_new = nc"
  by (simp add: CNameCache_apply_def CNameCache_new_def)

lemma CNameCache_empty_new: "CNameCache_empty CNameCache_new"
  by (simp add: CNameCache_empty_def CNameCache_new_def)

section \<open>Flush\<close>

text \<open>
  C5.  When the coins map and the name cache are empty and the best block is null, \<open>Flush\<close>
  returns true and leaves the cache and its parent as they are, whatever the parent's
  \<open>BatchWrite\<close> would do.  Otherwise it hands the coins map, the best block and the name
  cache to the parent's \<open>BatchWrite\<close>; when that returns true, \<open>Flush\<close> returns true, the
  parent is as \<open>BatchWrite\<close> left it, and the cache has an empty coins map, an empty name
  cache and a counter of zero.
\<close>

theorem Flush_spec:
  "(hashBlock c = 0 \<and> cacheCoins c = [] \<and> CNameCache_empty (cacheNames c)
      \<longrightarrow> Flush vt c = (Returns True, c))
   \<and> (\<not> (hashBlock c = 0 \<and> cacheCoins c = [] \<and> CNameCache_empty (cacheNames c))
      \<longrightarrow> v_BatchWrite vt (base c) (cacheCoins c) (hashBlock c) (cacheNames c)
            = (Returns True, mapCoins', b')
      \<longrightarrow> Flush vt c =
            (Returns True,
             c\<lparr>base := b', cacheCoins := [], cachedCoinsUsage := 0, cacheNames := CNameCache_new\<rparr>)
          \<and> cacheCoins (snd (Flush vt c)) = []
          \<and> CNameCache_empty (cacheNames (snd (Flush vt c)))
          \<and> cachedCoinsUsage (snd (Flush vt c)) = 0)"
  by (simp add: Flush_def CNameCache_empty_def CNameCache_new_def)

lemma ex_child_BatchWrite:
  "v_BatchWrite (CCoinsViewCache_view CCoinsView_base) (base ex_child) (cacheCoins ex_child)
     (hashBlock ex_child) (cacheNames ex_child) = (Returns True, [], ex_cache)"
  by (simp add: CCoinsViewCache_view_def ex_child_def BatchWrite_def CCoinsViewCache_new_def
      flag_bits ex_coin_ok ex_coin_usage ex_cache_def CNameCache_apply_new)

theorem Flush_spec_witness:
  "(hashBlock (CCoinsViewCache_new ()) = 0 \<and> cacheCoins (CCoinsViewCache_new ()) = []
      \<and> CNameCache_empty (cacheNames (CCoinsViewCache_new ()))
      \<and> v_BatchWrite CCoinsView_base (base (CCoinsViewCache_new ())) [] 0 CNameCache_new
          = (Returns False, [], ())
      \<and> Flush CCoinsView_base (CCoinsViewCache_new ()) = (Returns True, CCoinsViewCache_new ()))
   \<and> (cacheCoins ex_child \<noteq> []
      \<and> Flush (CCoinsViewCache_view CCoinsView_base) ex_child =
          (Returns True,
           ex_child\<lparr>base := ex_cache, cacheCoins := [], cachedCoinsUsage := 0,
             cacheNames := CNameCache_new\<rparr>))"
proof -
  have e: "hashBlock (CCoinsViewCache_new ()) = 0 \<and> cacheCoins (CCoinsViewCache_new ()) = []
      \<and> CNameCache_empty (cacheNames (CCoinsViewCache_new ()))"
    by (simp add: CCoinsViewCache_new_def CNameCache_empty_new)
  have b: "v_BatchWrite CCoinsView_base (base (CCoinsViewCache_new ())) [] 0 CNameCache_new
          = (Returns False, [], ())"
    by (simp add: CCoinsView_base_def)
  have n: "cacheCoins ex_child \<noteq> []"
    by (simp add: ex_child_def)
  show ?thesis
    using Flush_spec [of "CCoinsViewCache_new ()" CCoinsView_base]
      Flush_spec [of ex_child "CCoinsViewCache_view CCoinsView_base" "[]" ex_cache]
      e b n ex_child_BatchWrite
    by simp
qed

section \<open>BatchWrite\<close>

text \<open>
  C3 (as amended).  A child entry that is \<open>DIRTY\<close> and \<open>FRESH\<close> with a spent coin, at an
  outpoint the receiving cache has no entry for, is dropped: the loop goes on with the cache
  as it was.  A child entry that is \<open>DIRTY\<close> with a spent coin, meeting an entry of the
  receiving cache that is \<open>FRESH\<close>, has that entry erased and the counter lowered by its
  usage, unless the child entry is \<open>FRESH\<close> too and the receiving coin is unspent.
\<close>

theorem BatchWrite_collapse:
  "(flags it AND DIRTY \<noteq> 0 \<and> flags it AND FRESH \<noteq> 0 \<and> IsSpent (coin it)
      \<and> map_of (cacheCoins c) k = None
     \<longrightarrow> BatchWrite_loop ((k, it) # mapCoins) c = BatchWrite_loop mapCoins c
        \<and> BatchWrite c [(k, it)] hashBlockIn names =
            (Returns True, [],
             c\<lparr>hashBlock := hashBlockIn, cacheNames := CNameCache_apply (cacheNames c) names\<rparr>))
   \<and> (flags it AND DIRTY \<noteq> 0 \<and> IsSpent (coin it)
      \<and> map_of (cacheCoins c) k = Some itUs \<and> flags itUs AND FRESH \<noteq> 0
      \<and> \<not> (flags it AND FRESH \<noteq> 0 \<and> \<not> IsSpent (coin itUs))
     \<longrightarrow> BatchWrite_loop ((k, it) # mapCoins) c =
          BatchWrite_loop mapCoins
            (c\<lparr>cachedCoinsUsage := cachedCoinsUsage c - DynamicMemoryUsage (coin itUs),
               cacheCoins := AList.delete k (cacheCoins c)\<rparr>)
        \<and> map_of (cacheCoins (snd (snd (BatchWrite c [(k, it)] hashBlockIn names)))) k = None)"
  by (auto simp: BatchWrite_def delete_conv')

lemma ex_entries:
  "flags ex_spent_fresh_dirty AND DIRTY \<noteq> 0" "flags ex_spent_fresh_dirty AND FRESH \<noteq> 0"
  "IsSpent (coin ex_spent_fresh_dirty)"
  "flags ex_spent_dirty AND DIRTY \<noteq> 0" "flags ex_spent_dirty AND FRESH = 0"
  "IsSpent (coin ex_spent_dirty)"
  by (simp_all add: ex_spent_fresh_dirty_def ex_spent_dirty_def flag_bits IsSpent_default)

lemma ex_entries_bits:
  "bit (flags ex_spent_fresh_dirty) 0" "bit (flags ex_spent_fresh_dirty) (Suc 0)"
  "bit (flags ex_spent_dirty) 0" "\<not> bit (flags ex_spent_dirty) (Suc 0)"
  by (simp_all add: ex_spent_fresh_dirty_def ex_spent_dirty_def flag_bits)

lemma ex_cache_lookup:
  "map_of (cacheCoins ex_cache) ex_outpoint = Some \<lparr>coin = ex_coin, flags = DIRTY OR FRESH\<rparr>"
  by (simp add: ex_cache_def)

theorem BatchWrite_collapse_witness:
  "(flags ex_spent_fresh_dirty AND DIRTY \<noteq> 0 \<and> flags ex_spent_fresh_dirty AND FRESH \<noteq> 0
      \<and> IsSpent (coin ex_spent_fresh_dirty)
      \<and> map_of (cacheCoins (CCoinsViewCache_new ())) ex_outpoint = None
      \<and> BatchWrite (CCoinsViewCache_new ()) [(ex_outpoint, ex_spent_fresh_dirty)] 0 CNameCache_new
          = (Returns True, [], CCoinsViewCache_new ()))
   \<and> (flags ex_spent_dirty AND DIRTY \<noteq> 0 \<and> IsSpent (coin ex_spent_dirty)
      \<and> map_of (cacheCoins ex_cache) ex_outpoint = Some \<lparr>coin = ex_coin, flags = DIRTY OR FRESH\<rparr>
      \<and> map_of (cacheCoins (snd (snd (BatchWrite ex_cache [(ex_outpoint, ex_spent_dirty)] 0
                 CNameCache_new)))) ex_outpoint = None)"
proof -
  have n: "map_of (cacheCoins (CCoinsViewCache_new ())) ex_outpoint = None"
    by (simp add: CCoinsViewCache_new_def)
  have f: "flags \<lparr>coin = ex_coin, flags = DIRTY OR FRESH\<rparr> AND FRESH \<noteq> 0"
    by (simp add: flag_bits)
  have i: "(CCoinsViewCache_new ())\<lparr>hashBlock := 0,
       cacheNames := CNameCache_apply (cacheNames (CCoinsViewCache_new ())) CNameCache_new\<rparr>
     = (CCoinsViewCache_new () :: unit CCoinsViewCache)"
    by (simp add: CCoinsViewCache_new_def CNameCache_apply_new)
  show ?thesis
    using BatchWrite_collapse [where it = ex_spent_fresh_dirty and c = "CCoinsViewCache_new ()"
        and k = ex_outpoint and mapCoins = "[]" and hashBlockIn = 0 and names = CNameCache_new]
      BatchWrite_collapse [where it = ex_spent_dirty and c = ex_cache and k = ex_outpoint
        and itUs = "\<lparr>coin = ex_coin, flags = DIRTY OR FRESH\<rparr>" and mapCoins = "[]"
        and hashBlockIn = 0 and names = CNameCache_new]
      n f ex_entries ex_cache_lookup
    by (simp add: i)
qed

text \<open>
  C3 as stated fails where the child entry, \<open>DIRTY\<close> and spent, is \<open>FRESH\<close> as well and the
  receiving entry is \<open>FRESH\<close> and unspent: \<open>BatchWrite\<close> throws and the entry stays.
\<close>

theorem BatchWrite_collapse_counterexample:
  "flags ex_spent_fresh_dirty AND DIRTY \<noteq> 0 \<and> IsSpent (coin ex_spent_fresh_dirty)
   \<and> map_of (cacheCoins ex_cache) ex_outpoint = Some \<lparr>coin = ex_coin, flags = DIRTY OR FRESH\<rparr>
   \<and> flags \<lparr>coin = ex_coin, flags = DIRTY OR FRESH\<rparr> AND FRESH \<noteq> 0
   \<and> BatchWrite ex_cache [(ex_outpoint, ex_spent_fresh_dirty)] 0 CNameCache_new =
       (Throws ''FRESH flag misapplied to coin that exists in parent cache'',
        [(ex_outpoint, ex_spent_fresh_dirty)], ex_cache)"
  by (simp add: ex_entries ex_entries_bits ex_cache_lookup BatchWrite_def ex_coin_ok flag_bits)

section \<open>AddCoin followed by SpendCoin\<close>

lemma AddCoin_entry:
  assumes "fst (AddCoin c outpoint cn possible_overwrite) = Returns ()"
    and "\<not> IsUnspendable (scriptPubKey (out cn))"
  shows "\<exists>f. map_of (cacheCoins (snd (AddCoin c outpoint cn possible_overwrite))) outpoint
           = Some \<lparr>coin = cn, flags = f\<rparr>"
  using assms
  by (auto simp: AddCoin_def Let_def update_conv' split: if_splits option.splits)

lemma SpendCoin_cached:
  assumes "map_of (cacheCoins c) outpoint = Some e"
  shows "SpendCoin vt c outpoint moveout =
     ((True, if moveout then Some (coin e) else None),
      if flags e AND FRESH \<noteq> 0
      then c\<lparr>cachedCoinsUsage := cachedCoinsUsage c - DynamicMemoryUsage (coin e),
             cacheCoins := AList.delete outpoint (cacheCoins c)\<rparr>
      else c\<lparr>cachedCoinsUsage := cachedCoinsUsage c - DynamicMemoryUsage (coin e),
             cacheCoins := AList.update outpoint \<lparr>coin = Clear (coin e), flags = flags e OR DIRTY\<rparr>
                (cacheCoins c)\<rparr>)"
  using assms by (simp add: SpendCoin_def FetchCoin_def Let_def)

lemma SpendCoin_leaves_spent:
  "case map_of (cacheCoins (snd (SpendCoin vt c outpoint moveout))) outpoint of
     None \<Rightarrow> True
   | Some e \<Rightarrow> IsSpent (coin e)"
proof (cases "map_of (cacheCoins c) outpoint")
  case (Some e)
  show ?thesis
    by (simp add: SpendCoin_cached [OF Some] delete_conv' update_conv' IsSpent_Clear)
next
  case None
  obtain found tmp b' where g: "v_GetCoin vt (base c) outpoint Coin_default = ((found, tmp), b')"
    by (metis prod.exhaust)
  show ?thesis
    using None g
    by (simp add: SpendCoin_def FetchCoin_def Let_def delete_conv' update_conv' IsSpent_Clear)
qed

lemma GetCoin_live_iff:
  "fst (fst (GetCoin vt c outpoint cin)) =
     (case map_of (cacheCoins c) outpoint of
        Some e \<Rightarrow> \<not> IsSpent (coin e)
      | None \<Rightarrow> fst (fst (v_GetCoin vt (base c) outpoint Coin_default))
                 \<and> \<not> IsSpent (snd (fst (v_GetCoin vt (base c) outpoint Coin_default))))"
proof (cases "map_of (cacheCoins c) outpoint")
  case (Some e)
  then show ?thesis by (simp add: GetCoin_def FetchCoin_def)
next
  case None
  obtain found tmp b' where g: "v_GetCoin vt (base c) outpoint Coin_default = ((found, tmp), b')"
    by (metis prod.exhaust)
  show ?thesis
    using None g by (simp add: GetCoin_def FetchCoin_def Let_def)
qed

text \<open>
  C2 (as amended).  Let \<open>AddCoin\<close> return, and let \<open>SpendCoin\<close> follow at the same
  outpoint.  Afterwards \<open>GetCoin\<close> reports a live coin only by reading through to the
  parent: exactly when the coins map has no entry for the outpoint and the parent reports
  an unspent coin.  A coin with a spendable script is in the map after \<open>AddCoin\<close>.  If the
  entry after \<open>AddCoin\<close> was \<open>FRESH\<close>, the coins map has no entry for the outpoint after
  \<open>SpendCoin\<close>; if it was not, \<open>GetCoin\<close> returns false, the entry holding the cleared
  coin.
\<close>

theorem AddCoin_SpendCoin:
  assumes "fst (AddCoin c outpoint cn possible_overwrite) = Returns ()"
  shows "let c1 = snd (AddCoin c outpoint cn possible_overwrite);
             c2 = snd (SpendCoin vt c1 outpoint moveout)
         in (fst (fst (GetCoin vt c2 outpoint cin))
               = (map_of (cacheCoins c2) outpoint = None
                  \<and> fst (fst (v_GetCoin vt (base c2) outpoint Coin_default))
                  \<and> \<not> IsSpent (snd (fst (v_GetCoin vt (base c2) outpoint Coin_default)))))
          \<and> (\<not> IsUnspendable (scriptPubKey (out cn))
               \<longrightarrow> (\<exists>e. map_of (cacheCoins c1) outpoint = Some e \<and> coin e = cn))
          \<and> (\<forall>e. map_of (cacheCoins c1) outpoint = Some e
               \<longrightarrow> fst (fst (SpendCoin vt c1 outpoint moveout))
                 \<and> base c2 = base c
                 \<and> (if flags e AND FRESH \<noteq> 0
                    then map_of (cacheCoins c2) outpoint = None
                    else GetCoin vt c2 outpoint cin = ((False, Clear (coin e)), c2)))"
proof -
  let ?c1 = "snd (AddCoin c outpoint cn possible_overwrite)"
  let ?c2 = "snd (SpendCoin vt ?c1 outpoint moveout)"
  have 1: "fst (fst (GetCoin vt ?c2 outpoint cin))
               = (map_of (cacheCoins ?c2) outpoint = None
                  \<and> fst (fst (v_GetCoin vt (base ?c2) outpoint Coin_default))
                  \<and> \<not> IsSpent (snd (fst (v_GetCoin vt (base ?c2) outpoint Coin_default))))"
    using SpendCoin_leaves_spent [of vt ?c1 outpoint moveout]
    by (simp add: GetCoin_live_iff split: option.splits)
  have 2: "\<not> IsUnspendable (scriptPubKey (out cn))
               \<longrightarrow> (\<exists>e. map_of (cacheCoins ?c1) outpoint = Some e \<and> coin e = cn)"
    using AddCoin_entry [OF assms] by auto
  have b: "base ?c1 = base c"
    by (simp add: AddCoin_def Let_def split: option.splits)
  have 3: "fst (fst (SpendCoin vt ?c1 outpoint moveout))
                 \<and> base ?c2 = base c
                 \<and> (if flags e AND FRESH \<noteq> 0
                    then map_of (cacheCoins ?c2) outpoint = None
                    else GetCoin vt ?c2 outpoint cin = ((False, Clear (coin e)), ?c2))"
    if e: "map_of (cacheCoins ?c1) outpoint = Some e" for e
    using b
    by (auto simp: SpendCoin_cached [OF e] GetCoin_def FetchCoin_def Let_def delete_conv'
        update_conv' IsSpent_Clear)
  show ?thesis
    unfolding Let_def using 1 2 3 by blast
qed

theorem AddCoin_SpendCoin_witness:
  "fst (AddCoin (CCoinsViewCache_new ()) ex_outpoint ex_coin False) = Returns ()
   \<and> \<not> IsUnspendable (scriptPubKey (out ex_coin))
   \<and> map_of (cacheCoins (snd (AddCoin (CCoinsViewCache_new ()) ex_outpoint ex_coin False)))
       ex_outpoint = Some \<lparr>coin = ex_coin, flags = DIRTY OR FRESH\<rparr>
   \<and> map_of (cacheCoins (snd (SpendCoin CCoinsView_base
         (snd (AddCoin (CCoinsViewCache_new ()) ex_outpoint ex_coin False)) ex_outpoint False)))
       ex_outpoint = None
   \<and> \<not> fst (fst (GetCoin CCoinsView_base (snd (SpendCoin CCoinsView_base
         (snd (AddCoin (CCoinsViewCache_new ()) ex_outpoint ex_coin False)) ex_outpoint False))
       ex_outpoint Coin_default))"
proof -
  have r: "fst (AddCoin (CCoinsViewCache_new ()) ex_outpoint ex_coin False) = Returns ()"
    by (simp add: ex_cache_AddCoin)
  have s: "snd (AddCoin (CCoinsViewCache_new ()) ex_outpoint ex_coin False) = ex_cache"
    by (simp add: ex_cache_AddCoin)
  have p: "\<not> fst (fst (v_GetCoin CCoinsView_base b ex_outpoint Coin_default))" for b
    by (simp add: CCoinsView_base_def CCoinsView_GetCoin_def)
  show ?thesis
    using AddCoin_SpendCoin [OF r, of CCoinsView_base False Coin_default] r
    unfolding s Let_def
    by (simp add: ex_cache_lookup flag_bits ex_coin_ok p)
qed

text \<open>
  C2 as stated fails over a parent that holds a live coin at the outpoint: the new entry is
  \<open>FRESH\<close>, \<open>SpendCoin\<close> erases it, and \<open>GetCoin\<close> fetches the parent's coin.
\<close>

theorem AddCoin_SpendCoin_counterexample:
  "fst (AddCoin ex_over_cache ex_outpoint ex_coin2 False) = Returns ()
   \<and> fst (fst (SpendCoin (CCoinsViewCache_view CCoinsView_base)
        (snd (AddCoin ex_over_cache ex_outpoint ex_coin2 False)) ex_outpoint False))
   \<and> fst (GetCoin (CCoinsViewCache_view CCoinsView_base)
        (snd (SpendCoin (CCoinsViewCache_view CCoinsView_base)
           (snd (AddCoin ex_over_cache ex_outpoint ex_coin2 False)) ex_outpoint False))
        ex_outpoint Coin_default) = (True, ex_coin)
   \<and> \<not> IsSpent ex_coin"
  by (simp add: ex_over_cache_def CCoinsViewCache_new_def AddCoin_def Let_def ex_coin2_ok
      CCoinsCacheEntry_default_def IsSpent_default flag_bits SpendCoin_def FetchCoin_def
      GetCoin_def CCoinsViewCache_view_def ex_cache_lookup ex_coin_ok)

section \<open>The best-block marker\<close>

lemma FetchCoin_hashBlock: "hashBlock (snd (FetchCoin vt c outpoint)) = hashBlock c"
  by (simp add: FetchCoin_def Let_def split: option.splits prod.splits)

lemma HaveCoin_hashBlock: "hashBlock (snd (HaveCoin vt c outpoint)) = hashBlock c"
  using FetchCoin_hashBlock [of vt c outpoint]
  by (auto simp: HaveCoin_def split: option.splits prod.splits)

lemma HaveInputs_loop_hashBlock: "hashBlock (snd (HaveInputs_loop vt c vin)) = hashBlock c"
proof (induction vin arbitrary: c)
  case Nil
  show ?case by simp
next
  case (Cons prevout vin)
  show ?case
    using Cons.IH [of "snd (HaveCoin vt c prevout)"] HaveCoin_hashBlock [of vt c prevout]
    by (auto split: prod.splits)
qed

lemma BatchWrite_loop_hashBlock:
  "hashBlock (snd (snd (BatchWrite_loop mapCoins c))) = hashBlock c"
proof (induction mapCoins arbitrary: c)
  case Nil
  show ?case by simp
next
  case (Cons a mapCoins)
  obtain k it where a: "a = (k, it)" by (cases a)
  show ?case unfolding a by (simp add: Cons.IH split: option.splits)
qed

lemma BatchWrite_hashBlock:
  "hashBlock (snd (snd (BatchWrite c mapCoins hashBlockIn names))) =
     (if fst (BatchWrite c mapCoins hashBlockIn names) = Returns True then hashBlockIn
      else hashBlock c)"
  using BatchWrite_loop_hashBlock [of mapCoins c]
  by (auto simp: BatchWrite_def split: prod.splits outcome.splits)

lemma Flush_hashBlock: "hashBlock (snd (Flush vt c)) = hashBlock c"
  by (simp add: Flush_def split: prod.splits outcome.splits)

lemma SetName_hashBlock: "hashBlock (snd (SetName vt h c name data undo)) = hashBlock c"
  by (simp add: SetName_def Let_def split: option.splits prod.splits)

lemma DeleteName_hashBlock: "hashBlock (snd (DeleteName vt h c name)) = hashBlock c"
  by (simp add: DeleteName_def Let_def split: option.splits prod.splits)

text \<open>
  C9 (as amended).  \<open>hashBlock\<close> is null after construction.  \<open>SetBestBlock\<close> and a
  \<open>BatchWrite\<close> that returns store the hash they are given; \<open>GetBestBlock\<close> stores the
  parent's best block when \<open>hashBlock\<close> is null and leaves it otherwise; every other public
  call, and a \<open>BatchWrite\<close> that throws, leaves \<open>hashBlock\<close> as it was.
\<close>

theorem hashBlock_step:
  "hashBlock (snd (exec vt h x c)) =
     (case x of
        Call_SetBestBlock hashBlockIn \<Rightarrow> hashBlockIn
      | Call_BatchWrite mapCoins hashBlockIn names \<Rightarrow>
          if fst (BatchWrite c mapCoins hashBlockIn names) = Returns True then hashBlockIn
          else hashBlock c
      | Call_GetBestBlock \<Rightarrow>
          if hashBlock c = 0 then fst (v_GetBestBlock vt (base c)) else hashBlock c
      | _ \<Rightarrow> hashBlock c)"
proof (cases x)
  case (Call_GetCoin outpoint)
  then show ?thesis
    using FetchCoin_hashBlock [of vt c outpoint]
    by (auto simp: GetCoin_def split: option.splits prod.splits)
next
  case (Call_HaveCoin outpoint)
  then show ?thesis by (simp add: HaveCoin_hashBlock)
next
  case (Call_AccessCoin outpoint)
  then show ?thesis
    using FetchCoin_hashBlock [of vt c outpoint]
    by (auto simp: AccessCoin_def split: option.splits prod.splits)
next
  case (Call_HaveInputs isCoinBase vin)
  then show ?thesis by (simp add: HaveInputs_def HaveInputs_loop_hashBlock)
next
  case (Call_AddCoin outpoint cn possible_overwrite)
  then show ?thesis by (simp add: AddCoin_def Let_def split: option.splits)
next
  case (Call_EmplaceCoinInternalDANGER outpoint cn)
  then show ?thesis by (simp add: EmplaceCoinInternalDANGER_def)
next
  case (Call_SpendCoin outpoint moveout)
  then show ?thesis
    using FetchCoin_hashBlock [of vt c outpoint]
    by (auto simp: SpendCoin_def Let_def split: option.splits prod.splits)
next
  case (Call_Uncache outpoint)
  then show ?thesis by (simp add: Uncache_def split: option.splits)
next
  case Call_GetBestBlock
  then show ?thesis by (simp add: GetBestBlock_def split: prod.splits)
next
  case (Call_SetBestBlock hashBlockIn)
  then show ?thesis by (simp add: SetBestBlock_def)
next
  case (Call_SetName name data undo)
  then show ?thesis by (simp add: SetName_hashBlock)
next
  case (Call_DeleteName name)
  then show ?thesis by (simp add: DeleteName_hashBlock)
next
  case (Call_BatchWrite mapCoins hashBlockIn names)
  then show ?thesis
    using BatchWrite_hashBlock [of c mapCoins hashBlockIn names]
    by (auto split: prod.splits)
next
  case Call_Flush
  then show ?thesis
    using Flush_hashBlock [of vt c] by (auto split: prod.splits)
next
  case Call_ReallocateCache
  then show ?thesis by (simp add: ReallocateCache_def)
qed simp_all

theorem hashBlock_step_witness:
  "hashBlock (snd (exec CCoinsView_base False (Call_SetBestBlock 5) (CCoinsViewCache_new ()))) = 5
   \<and> hashBlock (snd (exec CCoinsView_base False (Call_GetCoin ex_outpoint)
        (SetBestBlock (CCoinsViewCache_new ()) 5))) = 5"
  using hashBlock_step [of CCoinsView_base False "Call_SetBestBlock 5" "CCoinsViewCache_new ()"]
    hashBlock_step [of CCoinsView_base False "Call_GetCoin ex_outpoint"
      "SetBestBlock (CCoinsViewCache_new ()) 5"]
  by (simp add: SetBestBlock_def)

text \<open>
  C9 as stated fails: on a cache just constructed over a parent whose best block is 5, the
  read \<open>GetBestBlock\<close> takes \<open>hashBlock\<close> from null to 5.
\<close>

theorem hashBlock_step_counterexample:
  "hashBlock ex_best_child = 0
   \<and> hashBlock (snd (exec (CCoinsViewCache_view CCoinsView_base) False Call_GetBestBlock
        ex_best_child)) = 5
   \<and> (5 :: uint256) \<noteq> 0"
  by (simp add: ex_best_child_def ex_best_parent_def CCoinsViewCache_new_def SetBestBlock_def
      GetBestBlock_def CCoinsViewCache_view_def)

section \<open>The error of BatchWrite\<close>

lemma BatchWrite_loop_outcome:
  "fst (BatchWrite_loop mapCoins c) = Returns ()
   \<or> fst (BatchWrite_loop mapCoins c)
       = Throws ''FRESH flag misapplied to coin that exists in parent cache''"
proof (induction mapCoins arbitrary: c)
  case Nil
  show ?case by simp
next
  case (Cons a mapCoins)
  obtain k it where a: "a = (k, it)" by (cases a)
  show ?case unfolding a by (simp add: Cons.IH split: option.splits)
qed

lemma BatchWrite_loop_skip:
  "fst (BatchWrite_loop (filter (\<lambda>x. flags (snd x) AND DIRTY \<noteq> 0) mapCoins) c)
     = fst (BatchWrite_loop mapCoins c)
   \<and> snd (snd (BatchWrite_loop (filter (\<lambda>x. flags (snd x) AND DIRTY \<noteq> 0) mapCoins) c))
     = snd (snd (BatchWrite_loop mapCoins c))"
proof (induction mapCoins arbitrary: c)
  case Nil
  show ?case by simp
next
  case (Cons a mapCoins)
  obtain k it where a: "a = (k, it)" by (cases a)
  show ?case unfolding a by (simp add: Cons.IH split: option.splits)
qed

lemma Bex_lookup_cong:
  assumes "k \<notin> fst ` set m" and "\<And>k'. k' \<noteq> k \<Longrightarrow> map_of cc' k' = map_of cc k'"
  shows "(\<exists>x\<in>set m. Q x \<and> (\<exists>itUs. map_of cc' (fst x) = Some itUs \<and> R itUs))
       = (\<exists>x\<in>set m. Q x \<and> (\<exists>itUs. map_of cc (fst x) = Some itUs \<and> R itUs))"
proof -
  have "\<And>x. x \<in> set m \<Longrightarrow> map_of cc' (fst x) = map_of cc (fst x)"
    using assms by (metis imageI)
  then show ?thesis by auto
qed

lemma BatchWrite_loop_throws_iff:
  assumes "distinct (map fst mapCoins)"
  shows "(fst (BatchWrite_loop mapCoins c)
            = Throws ''FRESH flag misapplied to coin that exists in parent cache'')
       = (\<exists>x\<in>set mapCoins. flags (snd x) AND DIRTY \<noteq> 0 \<and> flags (snd x) AND FRESH \<noteq> 0
            \<and> (\<exists>itUs. map_of (cacheCoins c) (fst x) = Some itUs \<and> \<not> IsSpent (coin itUs)))"
  using assms
proof (induction mapCoins arbitrary: c)
  case Nil
  show ?case by simp
next
  case (Cons a mapCoins)
  obtain k it where a: "a = (k, it)" by (cases a)
  have d: "distinct (map fst mapCoins)" and k: "k \<notin> fst ` set mapCoins"
    using Cons.prems a by auto
  note IH = Cons.IH [OF d]
  have upd: "(\<exists>x\<in>set mapCoins. flags (snd x) AND DIRTY \<noteq> 0 \<and> flags (snd x) AND FRESH \<noteq> 0
            \<and> (\<exists>itUs. map_of (AList.update k e (cacheCoins c)) (fst x) = Some itUs
                  \<and> \<not> IsSpent (coin itUs)))
      = (\<exists>x\<in>set mapCoins. flags (snd x) AND DIRTY \<noteq> 0 \<and> flags (snd x) AND FRESH \<noteq> 0
            \<and> (\<exists>itUs. map_of (cacheCoins c) (fst x) = Some itUs \<and> \<not> IsSpent (coin itUs)))" for e
    using Bex_lookup_cong [OF k, of "AList.update k e (cacheCoins c)" "cacheCoins c"
        "\<lambda>x. flags (snd x) AND DIRTY \<noteq> 0 \<and> flags (snd x) AND FRESH \<noteq> 0"
        "\<lambda>itUs. \<not> IsSpent (coin itUs)"]
    by (simp add: update_conv')
  have del: "(\<exists>x\<in>set mapCoins. flags (snd x) AND DIRTY \<noteq> 0 \<and> flags (snd x) AND FRESH \<noteq> 0
            \<and> (\<exists>itUs. map_of (AList.delete k (cacheCoins c)) (fst x) = Some itUs
                  \<and> \<not> IsSpent (coin itUs)))
      = (\<exists>x\<in>set mapCoins. flags (snd x) AND DIRTY \<noteq> 0 \<and> flags (snd x) AND FRESH \<noteq> 0
            \<and> (\<exists>itUs. map_of (cacheCoins c) (fst x) = Some itUs \<and> \<not> IsSpent (coin itUs)))"
    using Bex_lookup_cong [OF k, of "AList.delete k (cacheCoins c)" "cacheCoins c"
        "\<lambda>x. flags (snd x) AND DIRTY \<noteq> 0 \<and> flags (snd x) AND FRESH \<noteq> 0"
        "\<lambda>itUs. \<not> IsSpent (coin itUs)"]
    by (simp add: delete_conv')
  show ?case
  proof (cases "flags it AND DIRTY \<noteq> 0")
    case False
    then show ?thesis unfolding a by (simp add: IH)
  next
    case dirty: True
    show ?thesis
    proof (cases "map_of (cacheCoins c) k")
      case None
      show ?thesis
        unfolding a using dirty None
        by (simp add: IH upd)
    next
      case (Some itUs)
      show ?thesis
        unfolding a using dirty Some
        by (simp add: IH upd del)
    qed
  qed
qed

text \<open>
  C4.  The child's map has each outpoint once.  \<open>BatchWrite\<close> throws the logic error
  ``FRESH flag misapplied'' exactly when the child's map has an entry that is \<open>DIRTY\<close> and
  \<open>FRESH\<close> at an outpoint where the receiving cache holds an unspent coin; it ends in no
  other way than returning true or throwing this error.  Entries without \<open>DIRTY\<close> are
  skipped: leaving them out of the child's map changes neither the outcome nor the cache.
\<close>

theorem BatchWrite_fresh_misapplied:
  assumes "distinct (map fst mapCoins)"
  shows "((fst (BatchWrite c mapCoins hashBlockIn names)
            = Throws ''FRESH flag misapplied to coin that exists in parent cache'')
          = (\<exists>x\<in>set mapCoins. flags (snd x) AND DIRTY \<noteq> 0 \<and> flags (snd x) AND FRESH \<noteq> 0
               \<and> (\<exists>itUs. map_of (cacheCoins c) (fst x) = Some itUs \<and> \<not> IsSpent (coin itUs))))
    \<and> (fst (BatchWrite c mapCoins hashBlockIn names) = Returns True
        \<or> fst (BatchWrite c mapCoins hashBlockIn names)
            = Throws ''FRESH flag misapplied to coin that exists in parent cache'')
    \<and> fst (BatchWrite c (filter (\<lambda>x. flags (snd x) AND DIRTY \<noteq> 0) mapCoins) hashBlockIn names)
        = fst (BatchWrite c mapCoins hashBlockIn names)
    \<and> snd (snd (BatchWrite c (filter (\<lambda>x. flags (snd x) AND DIRTY \<noteq> 0) mapCoins) hashBlockIn names))
        = snd (snd (BatchWrite c mapCoins hashBlockIn names))"
proof -
  have 1: "(fst (BatchWrite c mapCoins hashBlockIn names)
            = Throws ''FRESH flag misapplied to coin that exists in parent cache'')
      = (fst (BatchWrite_loop mapCoins c)
            = Throws ''FRESH flag misapplied to coin that exists in parent cache'')"
    by (auto simp: BatchWrite_def split: prod.splits outcome.splits)
  have 2: "fst (BatchWrite c mapCoins hashBlockIn names) = Returns True
        \<or> fst (BatchWrite c mapCoins hashBlockIn names)
            = Throws ''FRESH flag misapplied to coin that exists in parent cache''"
    using BatchWrite_loop_outcome [of mapCoins c]
    by (auto simp: BatchWrite_def split: prod.splits outcome.splits)
  have 3: "BatchWrite c mapCoins hashBlockIn names =
     (case (fst (BatchWrite_loop mapCoins c), snd (snd (BatchWrite_loop mapCoins c))) of
        (Returns u, c') \<Rightarrow>
          (Returns True, fst (snd (BatchWrite_loop mapCoins c)),
           c'\<lparr>hashBlock := hashBlockIn,
              cacheNames := CNameCache_apply (cacheNames c') names\<rparr>)
      | (Throws msg, c') \<Rightarrow> (Throws msg, fst (snd (BatchWrite_loop mapCoins c)), c')
      | (Aborts, c') \<Rightarrow> (Aborts, fst (snd (BatchWrite_loop mapCoins c)), c'))" for mapCoins
    by (simp add: BatchWrite_def split: prod.splits outcome.splits)
  have 4: "fst (BatchWrite c (filter (\<lambda>x. flags (snd x) AND DIRTY \<noteq> 0) mapCoins) hashBlockIn names)
        = fst (BatchWrite c mapCoins hashBlockIn names)
    \<and> snd (snd (BatchWrite c (filter (\<lambda>x. flags (snd x) AND DIRTY \<noteq> 0) mapCoins) hashBlockIn names))
        = snd (snd (BatchWrite c mapCoins hashBlockIn names))"
    using BatchWrite_loop_skip [of mapCoins c]
    by (simp add: 3 split: outcome.splits)
  show ?thesis
    using 1 2 4 BatchWrite_loop_throws_iff [OF assms, of c] by blast
qed


theorem BatchWrite_fresh_misapplied_witness:
  "distinct (map fst (cacheCoins ex_child))
   \<and> fst (BatchWrite ex_cache (cacheCoins ex_child) 0 CNameCache_new)
       = Throws ''FRESH flag misapplied to coin that exists in parent cache''
   \<and> distinct (map fst [(ex_outpoint, ex_spent_dirty)])
   \<and> fst (BatchWrite ex_cache [(ex_outpoint, ex_spent_dirty)] 0 CNameCache_new) = Returns True"
proof -
  have d: "distinct (map fst (cacheCoins ex_child))"
    by (simp add: ex_child_def)
  have d': "distinct (map fst [(ex_outpoint, ex_spent_dirty)])"
    by simp
  have x: "\<exists>x\<in>set (cacheCoins ex_child).
      flags (snd x) AND DIRTY \<noteq> 0 \<and> flags (snd x) AND FRESH \<noteq> 0
      \<and> (\<exists>itUs. map_of (cacheCoins ex_cache) (fst x) = Some itUs \<and> \<not> IsSpent (coin itUs))"
    by (simp add: ex_child_def ex_cache_lookup flag_bits ex_coin_ok)
  have y: "\<not> (\<exists>x\<in>set [(ex_outpoint, ex_spent_dirty)].
      flags (snd x) AND DIRTY \<noteq> 0 \<and> flags (snd x) AND FRESH \<noteq> 0
      \<and> (\<exists>itUs. map_of (cacheCoins ex_cache) (fst x) = Some itUs \<and> \<not> IsSpent (coin itUs)))"
    by (simp add: ex_entries)
  show ?thesis
    using BatchWrite_fresh_misapplied [OF d, of ex_cache 0 CNameCache_new]
      BatchWrite_fresh_misapplied [OF d', of ex_cache 0 CNameCache_new] d d' x y
    by blast
qed

section \<open>FRESH entries hold unspent coins\<close>

lemma list_all_update:
  "P (k, v) \<Longrightarrow> list_all P al \<Longrightarrow> list_all P (AList.update k v al)"
  by (induction al) auto

lemma list_all_delete: "list_all P al \<Longrightarrow> list_all P (AList.delete k al)"
  by (induction al) auto

lemma no_fresh_spent_update:
  "\<not> (flags e AND FRESH \<noteq> 0 \<and> IsSpent (coin e)) \<Longrightarrow> no_fresh_spent m
     \<Longrightarrow> no_fresh_spent (AList.update k e m)"
  unfolding no_fresh_spent_def by (rule list_all_update) simp_all

lemma no_fresh_spent_delete: "no_fresh_spent m \<Longrightarrow> no_fresh_spent (AList.delete k m)"
  unfolding no_fresh_spent_def by (rule list_all_delete)

lemma no_fresh_spent_lookup:
  "no_fresh_spent m \<Longrightarrow> map_of m k = Some e \<Longrightarrow> \<not> (flags e AND FRESH \<noteq> 0 \<and> IsSpent (coin e))"
  unfolding no_fresh_spent_def list_all_iff
  using map_of_SomeD by fastforce

lemma no_fresh_spent_subset: "set m' \<subseteq> set m \<Longrightarrow> no_fresh_spent m \<Longrightarrow> no_fresh_spent m'"
  unfolding no_fresh_spent_def list_all_iff by blast

lemma FetchCoin_no_fresh_spent:
  assumes "\<And>b outpoint cn. fst (fst (v_GetCoin vt b outpoint cn))
             \<Longrightarrow> \<not> IsSpent (snd (fst (v_GetCoin vt b outpoint cn)))"
    and "no_fresh_spent (cacheCoins c)"
  shows "no_fresh_spent (cacheCoins (snd (FetchCoin vt c outpoint)))"
proof (cases "map_of (cacheCoins c) outpoint")
  case (Some e)
  then show ?thesis using assms(2) by (simp add: FetchCoin_def)
next
  case None
  obtain found tmp b' where g: "v_GetCoin vt (base c) outpoint Coin_default = ((found, tmp), b')"
    by (metis prod.exhaust)
  have "found \<Longrightarrow> \<not> IsSpent tmp"
    using assms(1) [of "base c" outpoint Coin_default] g by simp
  then show ?thesis
    using None g assms(2)
    by (auto simp: FetchCoin_def Let_def flag_bits intro!: no_fresh_spent_update)
qed

lemma HaveCoin_no_fresh_spent:
  assumes "\<And>b outpoint cn. fst (fst (v_GetCoin vt b outpoint cn))
             \<Longrightarrow> \<not> IsSpent (snd (fst (v_GetCoin vt b outpoint cn)))"
    and "no_fresh_spent (cacheCoins c)"
  shows "no_fresh_spent (cacheCoins (snd (HaveCoin vt c outpoint)))"
  using FetchCoin_no_fresh_spent [OF assms, of outpoint]
  by (auto simp: HaveCoin_def split: option.splits prod.splits)

lemma HaveInputs_loop_no_fresh_spent:
  assumes "\<And>b outpoint cn. fst (fst (v_GetCoin vt b outpoint cn))
             \<Longrightarrow> \<not> IsSpent (snd (fst (v_GetCoin vt b outpoint cn)))"
  shows "no_fresh_spent (cacheCoins c)
     \<Longrightarrow> no_fresh_spent (cacheCoins (snd (HaveInputs_loop vt c vin)))"
proof (induction vin arbitrary: c)
  case Nil
  then show ?case by simp
next
  case (Cons prevout vin)
  have h: "no_fresh_spent (cacheCoins (snd (HaveCoin vt c prevout)))"
    using HaveCoin_no_fresh_spent [OF assms Cons.prems] .
  show ?case
    using Cons.IH [OF h] h by (auto split: prod.splits)
qed

lemma SpendCoin_no_fresh_spent:
  assumes "no_fresh_spent (cacheCoins c)"
  shows "no_fresh_spent (cacheCoins (snd (SpendCoin vt c outpoint moveout)))"
proof (cases "map_of (cacheCoins c) outpoint")
  case (Some e)
  then show ?thesis
    using assms
    by (auto simp: SpendCoin_def FetchCoin_def Let_def flag_bits
        intro!: no_fresh_spent_update no_fresh_spent_delete)
next
  case None
  obtain found tmp b' where g: "v_GetCoin vt (base c) outpoint Coin_default = ((found, tmp), b')"
    by (metis prod.exhaust)
  have d: "AList.delete outpoint (AList.update outpoint e (cacheCoins c))
             = AList.delete outpoint (cacheCoins c)" for e
    by (simp add: delete_update_same)
  show ?thesis
    using None g assms
    by (auto simp: SpendCoin_def FetchCoin_def Let_def flag_bits d
        intro!: no_fresh_spent_update no_fresh_spent_delete)
qed

lemma BatchWrite_loop_no_fresh_spent:
  "no_fresh_spent (cacheCoins c)
     \<Longrightarrow> no_fresh_spent (cacheCoins (snd (snd (BatchWrite_loop mapCoins c))))"
proof (induction mapCoins arbitrary: c)
  case Nil
  then show ?case by simp
next
  case (Cons a mapCoins)
  obtain k it where a: "a = (k, it)" by (cases a)
  show ?case
    unfolding a using Cons.prems
    by (auto simp: flag_bits split: option.splits
        intro!: Cons.IH no_fresh_spent_update no_fresh_spent_delete)
qed


lemma exec_no_fresh_spent:
  assumes live: "\<And>b outpoint cn. fst (fst (v_GetCoin vt b outpoint cn))
             \<Longrightarrow> \<not> IsSpent (snd (fst (v_GetCoin vt b outpoint cn)))"
    and drains: "\<And>b m hb nc. set (fst (snd (v_BatchWrite vt b m hb nc))) \<subseteq> set m"
    and inv: "no_fresh_spent (cacheCoins c)"
  shows "no_fresh_spent (cacheCoins (snd (exec vt h x c)))"
proof (cases x)
  case (Call_GetCoin outpoint)
  then show ?thesis
    using FetchCoin_no_fresh_spent [OF live inv, of outpoint]
    by (auto simp: GetCoin_def split: option.splits prod.splits)
next
  case (Call_HaveCoin outpoint)
  then show ?thesis by (simp add: HaveCoin_no_fresh_spent [OF live inv])
next
  case (Call_AccessCoin outpoint)
  then show ?thesis
    using FetchCoin_no_fresh_spent [OF live inv, of outpoint]
    by (auto simp: AccessCoin_def split: option.splits prod.splits)
next
  case (Call_HaveInputs isCoinBase vin)
  then show ?thesis
    using HaveInputs_loop_no_fresh_spent [OF live inv, of vin] inv
    by (simp add: HaveInputs_def)
next
  case (Call_AddCoin outpoint cn possible_overwrite)
  then show ?thesis
    using inv
    by (auto simp: AddCoin_def Let_def CCoinsCacheEntry_default_def
        intro!: no_fresh_spent_update split: option.splits)
next
  case (Call_EmplaceCoinInternalDANGER outpoint cn)
  then show ?thesis
    using inv
    by (auto simp: EmplaceCoinInternalDANGER_def flag_bits
        intro!: no_fresh_spent_update split: option.splits)
next
  case (Call_SpendCoin outpoint moveout)
  then show ?thesis by (simp add: SpendCoin_no_fresh_spent [OF inv])
next
  case (Call_Uncache outpoint)
  then show ?thesis
    using inv by (auto simp: Uncache_def intro!: no_fresh_spent_delete split: option.splits)
next
  case Call_GetBestBlock
  then show ?thesis using inv by (simp add: GetBestBlock_def split: prod.splits)
next
  case (Call_SetBestBlock hashBlockIn)
  then show ?thesis using inv by (simp add: SetBestBlock_def)
next
  case (Call_SetName name data undo)
  then show ?thesis
    using inv by (simp add: SetName_def Let_def split: option.splits prod.splits)
next
  case (Call_DeleteName name)
  then show ?thesis
    using inv by (simp add: DeleteName_def Let_def split: option.splits prod.splits)
next
  case (Call_BatchWrite mapCoins hashBlockIn names)
  then show ?thesis
    using BatchWrite_loop_no_fresh_spent [OF inv, of mapCoins]
    by (auto simp: BatchWrite_def split: prod.splits outcome.splits)
next
  case Call_Flush
  have "no_fresh_spent (fst (snd (v_BatchWrite vt (base c) (cacheCoins c) (hashBlock c)
          (cacheNames c))))"
    using no_fresh_spent_subset [OF drains inv] .
  then show ?thesis
    using Call_Flush inv
    by (auto simp: Flush_def no_fresh_spent_def split: prod.splits outcome.splits)
next
  case Call_ReallocateCache
  then show ?thesis using inv by (simp add: ReallocateCache_def no_fresh_spent_def)
qed (simp_all add: inv)

lemma run_no_fresh_spent:
  assumes "\<And>b outpoint cn. fst (fst (v_GetCoin vt b outpoint cn))
             \<Longrightarrow> \<not> IsSpent (snd (fst (v_GetCoin vt b outpoint cn)))"
    and "\<And>b m hb nc. set (fst (snd (v_BatchWrite vt b m hb nc))) \<subseteq> set m"
  shows "no_fresh_spent (cacheCoins c)
     \<Longrightarrow> no_fresh_spent (cacheCoins (snd (run vt h calls c)))"
proof (induction calls arbitrary: c)
  case Nil
  then show ?case by simp
next
  case (Cons x calls)
  have s: "no_fresh_spent (cacheCoins (snd (exec vt h x c)))"
    using exec_no_fresh_spent [OF assms Cons.prems] .
  show ?case
    using Cons.IH [OF s] s by (auto split: prod.splits outcome.splits)
qed

lemma CCoinsView_base_live:
  "fst (fst (v_GetCoin CCoinsView_base b outpoint cn))
     \<Longrightarrow> \<not> IsSpent (snd (fst (v_GetCoin CCoinsView_base b outpoint cn)))"
  by (simp add: CCoinsView_base_def CCoinsView_GetCoin_def)

lemma CCoinsView_base_drains:
  "set (fst (snd (v_BatchWrite CCoinsView_base b m hb nc))) \<subseteq> set m"
  by (simp add: CCoinsView_base_def)

lemma CCoinsViewCache_view_live:
  "fst (fst (v_GetCoin (CCoinsViewCache_view vt) b outpoint cn))
     \<Longrightarrow> \<not> IsSpent (snd (fst (v_GetCoin (CCoinsViewCache_view vt) b outpoint cn)))"
  by (auto simp: CCoinsViewCache_view_def GetCoin_def split: option.splits prod.splits)

lemma BatchWrite_loop_drains: "set (fst (snd (BatchWrite_loop m c))) \<subseteq> set m"
proof (induction m arbitrary: c)
  case Nil
  show ?case by simp
next
  case (Cons a m)
  obtain k it where a: "a = (k, it)" by (cases a)
  show ?case
    unfolding a using Cons.IH by (auto split: option.splits)
qed

lemma CCoinsViewCache_view_drains:
  "set (fst (snd (v_BatchWrite (CCoinsViewCache_view vt) b m hb nc))) \<subseteq> set m"
  using BatchWrite_loop_drains [of m b]
  by (auto simp: CCoinsViewCache_view_def BatchWrite_def split: prod.splits outcome.splits)

text \<open>
  C7 (as amended).  Let the parent never report a spent coin as found, and let its
  \<open>BatchWrite\<close> only take entries out of the map it is given; both hold for the base view
  and for a cache used as parent.  Then, if no entry of the coins map is \<open>FRESH\<close> and spent,
  none is after any sequence of public calls, also when the last call throws or fails an
  assertion.  \<open>SpendCoin\<close> keeps the property over any parent: the \<open>FRESH\<close> entry it
  fetches is erased before it returns.
\<close>

theorem no_fresh_spent_invariant:
  "((\<forall>b outpoint cn. fst (fst (v_GetCoin vt b outpoint cn))
         \<longrightarrow> \<not> IsSpent (snd (fst (v_GetCoin vt b outpoint cn))))
     \<and> (\<forall>b m hb nc. set (fst (snd (v_BatchWrite vt b m hb nc))) \<subseteq> set m)
     \<and> no_fresh_spent (cacheCoins c)
     \<longrightarrow> no_fresh_spent (cacheCoins (snd (run vt h calls c))))
   \<and> (no_fresh_spent (cacheCoins c)
     \<longrightarrow> no_fresh_spent (cacheCoins (snd (SpendCoin vt c outpoint moveout))))"
  using run_no_fresh_spent [of vt c h calls] SpendCoin_no_fresh_spent [of c vt outpoint moveout]
  by blast

theorem no_fresh_spent_invariant_witness:
  "(\<forall>b outpoint cn. \<not> fst (fst (v_GetCoin CCoinsView_base b outpoint cn)))
   \<and> (\<forall>b m hb nc. fst (snd (v_BatchWrite CCoinsView_base b m hb nc)) = m)
   \<and> no_fresh_spent (cacheCoins (CCoinsViewCache_new ()))
   \<and> no_fresh_spent (cacheCoins (snd (run CCoinsView_base False
        [Call_AddCoin ex_outpoint ex_coin False, Call_SpendCoin ex_outpoint False,
         Call_HaveCoin ex_outpoint, Call_Flush]
        (CCoinsViewCache_new ()))))
   \<and> no_fresh_spent (cacheCoins (snd (SpendCoin ex_spent_parent (CCoinsViewCache_new ())
        ex_outpoint False)))"
proof -
  have i: "no_fresh_spent (cacheCoins (CCoinsViewCache_new ()))"
    by (simp add: CCoinsViewCache_new_def no_fresh_spent_def)
  have l: "\<forall>b outpoint cn. \<not> fst (fst (v_GetCoin CCoinsView_base b outpoint cn))"
    by (simp add: CCoinsView_base_def CCoinsView_GetCoin_def)
  have d: "\<forall>b m hb nc. fst (snd (v_BatchWrite CCoinsView_base b m hb nc)) = m"
    by (simp add: CCoinsView_base_def)
  have 1: "no_fresh_spent (cacheCoins (snd (run CCoinsView_base False
        [Call_AddCoin ex_outpoint ex_coin False, Call_SpendCoin ex_outpoint False,
         Call_HaveCoin ex_outpoint, Call_Flush]
        (CCoinsViewCache_new ()))))"
    using no_fresh_spent_invariant [of CCoinsView_base "CCoinsViewCache_new ()" False
        "[Call_AddCoin ex_outpoint ex_coin False, Call_SpendCoin ex_outpoint False,
          Call_HaveCoin ex_outpoint, Call_Flush]"] i l d
    by (metis order_refl)
  have 2: "no_fresh_spent (cacheCoins (snd (SpendCoin ex_spent_parent (CCoinsViewCache_new ())
        ex_outpoint False)))"
    using no_fresh_spent_invariant [of ex_spent_parent "CCoinsViewCache_new ()" False "[]"
        ex_outpoint False] i
    by blast
  show ?thesis
    using i l d 1 2 by blast
qed

text \<open>
  C7 as stated fails over a parent that reports a spent coin: \<open>FetchCoin\<close> keeps it as an
  entry flagged \<open>FRESH\<close>, and the read that fetched it returns with the entry in the map.
\<close>

theorem no_fresh_spent_counterexample:
  "no_fresh_spent (cacheCoins (CCoinsViewCache_new ()))
   \<and> exec ex_spent_parent False (Call_HaveCoin ex_outpoint) (CCoinsViewCache_new ()) =
       (Returns (),
        (CCoinsViewCache_new ())
          \<lparr>cacheCoins := [(ex_outpoint, \<lparr>coin = Coin_default, flags = FRESH\<rparr>)]\<rparr>)
   \<and> FRESH AND FRESH \<noteq> 0 \<and> IsSpent Coin_default
   \<and> \<not> no_fresh_spent (cacheCoins (snd (exec ex_spent_parent False (Call_HaveCoin ex_outpoint)
          (CCoinsViewCache_new ()))))"
  by (simp add: CCoinsViewCache_new_def no_fresh_spent_def ex_spent_parent_def HaveCoin_def
      FetchCoin_def Let_def IsSpent_default flag_bits DynamicMemoryUsage_def Coin_default_def
      CTxOut_null_def IsSpent_def IsNull_def)

section \<open>Memory accounting\<close>

lemma ex_big_coin_ok: "\<not> IsSpent ex_big_coin" "\<not> IsUnspendable (scriptPubKey (out ex_big_coin))"
  "DynamicMemoryUsage ex_big_coin = 40"
  by (simp_all add: ex_big_coin_def IsSpent_def IsNull_def IsUnspendable_def OP_RETURN_def
      MAX_SCRIPT_SIZE_def DynamicMemoryUsage_def)

lemma coins_usage_update_new:
  "map_of m k = None \<Longrightarrow> coins_usage (AList.update k e m) = coins_usage m + DynamicMemoryUsage (coin e)"
  by (induction m) (auto simp: coins_usage_def split: if_splits)

lemma coins_usage_not_in:
  "k \<notin> fst ` set m \<Longrightarrow> coins_usage (AList.delete k m) = coins_usage m"
  by (simp add: coins_usage_def)

lemma coins_usage_update_old:
  "distinct (map fst m) \<Longrightarrow> map_of m k = Some e0 \<Longrightarrow>
     coins_usage (AList.update k e m)
       = coins_usage m - DynamicMemoryUsage (coin e0) + DynamicMemoryUsage (coin e)"
  by (induction m) (auto simp: coins_usage_def split: if_splits)

lemma coins_usage_delete:
  "distinct (map fst m) \<Longrightarrow> map_of m k = Some e0 \<Longrightarrow>
     coins_usage (AList.delete k m) = coins_usage m - DynamicMemoryUsage (coin e0)"
proof (induction m)
  case Nil
  then show ?case by simp
next
  case (Cons a m)
  show ?case
  proof (cases "fst a = k")
    case True
    then have "k \<notin> fst ` set m" using Cons.prems(1) by auto
    then show ?thesis
      using True Cons.prems(2) coins_usage_not_in [of k m]
      by (cases a) (auto simp: coins_usage_def)
  next
    case False
    then show ?thesis
      using Cons by (cases a) (auto simp: coins_usage_def)
  qed
qed

lemma ex_big_cache_AddCoin:
  "AddCoin (CCoinsViewCache_new ()) ex_outpoint ex_big_coin False = (Returns (), ex_big_cache)"
  by (simp add: ex_big_coin_ok AddCoin_def Let_def CCoinsViewCache_new_def
      CCoinsCacheEntry_default_def IsSpent_default flag_bits ex_big_cache_def)


text \<open>
  C6.  The claim has the counter equal to the usage of the coins in the map at every boundary,
  the one where \<open>AddCoin\<close> throws included.  There the code falls short: \<open>AddCoin\<close> takes
  the usage of the cached coin off the counter before it finds the coin unspent and throws.
  On a new cache, \<open>AddCoin\<close> of a coin with a script of 40 bytes leaves one entry and a
  counter of 40; a second \<open>AddCoin\<close> at the same outpoint with \<open>possible_overwrite\<close> false
  throws, and leaves the map as it was and the counter at 0.
\<close>

theorem AddCoin_throw_usage:
  "usage_ok (CCoinsViewCache_new ())
   \<and> AddCoin (CCoinsViewCache_new ()) ex_outpoint ex_big_coin False = (Returns (), ex_big_cache)
   \<and> usage_ok ex_big_cache
   \<and> \<not> IsSpent ex_coin2
   \<and> fst (AddCoin ex_big_cache ex_outpoint ex_coin2 False)
       = Throws ''Attempted to overwrite an unspent coin (when possible_overwrite is false)''
   \<and> cacheCoins (snd (AddCoin ex_big_cache ex_outpoint ex_coin2 False)) = cacheCoins ex_big_cache
   \<and> coins_usage (cacheCoins (snd (AddCoin ex_big_cache ex_outpoint ex_coin2 False))) = 40
   \<and> cachedCoinsUsage (snd (AddCoin ex_big_cache ex_outpoint ex_coin2 False)) = 0
   \<and> \<not> usage_ok (snd (run CCoinsView_base False
          [Call_AddCoin ex_outpoint ex_big_coin False, Call_AddCoin ex_outpoint ex_coin2 False]
          (CCoinsViewCache_new ())))"
proof -
  have a: "usage_ok (CCoinsViewCache_new ())"
    by (simp add: usage_ok_def coins_usage_def CCoinsViewCache_new_def)
  have b: "usage_ok ex_big_cache"
    by (simp add: usage_ok_def coins_usage_def ex_big_cache_def ex_big_coin_ok)
  have t: "AddCoin ex_big_cache ex_outpoint ex_coin2 False =
      (Throws ''Attempted to overwrite an unspent coin (when possible_overwrite is false)'',
       ex_big_cache\<lparr>cachedCoinsUsage := 0\<rparr>)"
    by (simp add: ex_big_cache_def ex_big_coin_ok ex_coin2_ok AddCoin_def Let_def)
  have u: "coins_usage (cacheCoins ex_big_cache) = 40"
    by (simp add: coins_usage_def ex_big_cache_def ex_big_coin_ok)
  have n: "\<not> usage_ok (ex_big_cache\<lparr>cachedCoinsUsage := 0\<rparr>)"
    by (simp add: usage_ok_def u)
  show ?thesis
    by (simp add: a b t u n ex_coin2_ok ex_big_cache_AddCoin)
qed

text \<open>
  Every other path keeps the counter in step with the map: the property survives each public
  call that returns, and each call other than \<open>AddCoin\<close> and \<open>Flush\<close> however it ends,
  \<open>EmplaceCoinInternalDANGER\<close> being used on outpoints the map does not have.
\<close>

lemma usage_ok_update_new:
  assumes "usage_ok c" and "map_of (cacheCoins c) k = None"
  shows "usage_ok (c\<lparr>cacheCoins := AList.update k e (cacheCoins c),
                     cachedCoinsUsage := cachedCoinsUsage c + DynamicMemoryUsage (coin e)\<rparr>)"
  using assms by (simp add: usage_ok_def distinct_update coins_usage_update_new)

lemma usage_ok_update_old:
  assumes "usage_ok c" and "map_of (cacheCoins c) k = Some e0"
  shows "usage_ok (c\<lparr>cacheCoins := AList.update k e (cacheCoins c),
                     cachedCoinsUsage := cachedCoinsUsage c - DynamicMemoryUsage (coin e0)
                        + DynamicMemoryUsage (coin e)\<rparr>)"
  using assms by (simp add: usage_ok_def distinct_update coins_usage_update_old)

lemma usage_ok_delete:
  assumes "usage_ok c" and "map_of (cacheCoins c) k = Some e0"
  shows "usage_ok (c\<lparr>cacheCoins := AList.delete k (cacheCoins c),
                     cachedCoinsUsage := cachedCoinsUsage c - DynamicMemoryUsage (coin e0)\<rparr>)"
  using assms by (simp add: usage_ok_def distinct_delete coins_usage_delete)

lemma usage_ok_cong:
  "usage_ok c \<Longrightarrow> cacheCoins c' = cacheCoins c \<Longrightarrow> cachedCoinsUsage c' = cachedCoinsUsage c
     \<Longrightarrow> usage_ok c'"
  by (simp add: usage_ok_def)

lemma FetchCoin_usage_ok:
  assumes "usage_ok c"
  shows "usage_ok (snd (FetchCoin vt c outpoint))
     \<and> (\<forall>e. fst (FetchCoin vt c outpoint) = Some e
           \<longrightarrow> map_of (cacheCoins (snd (FetchCoin vt c outpoint))) outpoint = Some e)"
proof (cases "map_of (cacheCoins c) outpoint")
  case (Some e)
  then show ?thesis using assms by (simp add: FetchCoin_def)
next
  case None
  obtain found tmp b' where g: "v_GetCoin vt (base c) outpoint Coin_default = ((found, tmp), b')"
    by (metis prod.exhaust)
  show ?thesis
  proof (cases found)
    case False
    then show ?thesis
      using None g usage_ok_cong [OF assms, of "c\<lparr>base := b'\<rparr>"] by (simp add: FetchCoin_def)
  next
    case True
    let ?ret = "\<lparr>coin = tmp, flags = (if IsSpent tmp then FRESH else 0)\<rparr>"
    have "usage_ok (c\<lparr>cacheCoins := AList.update outpoint ?ret (cacheCoins c),
                     cachedCoinsUsage := cachedCoinsUsage c + DynamicMemoryUsage (coin ?ret)\<rparr>)"
      by (rule usage_ok_update_new [OF assms None])
    then have "usage_ok (c\<lparr>base := b', cacheCoins := AList.update outpoint ?ret (cacheCoins c),
                     cachedCoinsUsage := cachedCoinsUsage c + DynamicMemoryUsage tmp\<rparr>)"
      by (simp add: usage_ok_def)
    then show ?thesis
      using None g True by (simp add: FetchCoin_def Let_def update_conv')
  qed
qed

lemma HaveCoin_usage_ok: "usage_ok c \<Longrightarrow> usage_ok (snd (HaveCoin vt c outpoint))"
  using FetchCoin_usage_ok [of c vt outpoint]
  by (auto simp: HaveCoin_def split: option.splits prod.splits)

lemma HaveInputs_loop_usage_ok: "usage_ok c \<Longrightarrow> usage_ok (snd (HaveInputs_loop vt c vin))"
proof (induction vin arbitrary: c)
  case Nil
  then show ?case by simp
next
  case (Cons prevout vin)
  have h: "usage_ok (snd (HaveCoin vt c prevout))"
    using HaveCoin_usage_ok [OF Cons.prems] .
  show ?case
    using Cons.IH [OF h] h by (auto split: prod.splits)
qed

lemma AddCoin_usage_ok:
  assumes "usage_ok c" and "fst (AddCoin c outpoint cn possible_overwrite) \<noteq>
     Throws ''Attempted to overwrite an unspent coin (when possible_overwrite is false)''"
  shows "usage_ok (snd (AddCoin c outpoint cn possible_overwrite))"
proof (cases "map_of (cacheCoins c) outpoint")
  case None
  have "usage_ok (c\<lparr>cacheCoins := AList.update outpoint
           \<lparr>coin = cn, flags = f\<rparr> (cacheCoins c),
         cachedCoinsUsage := cachedCoinsUsage c + DynamicMemoryUsage (coin \<lparr>coin = cn, flags = f\<rparr>)\<rparr>)" for f
    by (rule usage_ok_update_new [OF assms(1) None])
  then show ?thesis
    using None assms by (auto simp: AddCoin_def Let_def usage_ok_def)
next
  case (Some e0)
  have "usage_ok (c\<lparr>cacheCoins := AList.update outpoint
           \<lparr>coin = cn, flags = f\<rparr> (cacheCoins c),
         cachedCoinsUsage := cachedCoinsUsage c - DynamicMemoryUsage (coin e0)
           + DynamicMemoryUsage (coin \<lparr>coin = cn, flags = f\<rparr>)\<rparr>)" for f
    by (rule usage_ok_update_old [OF assms(1) Some])
  then show ?thesis
    using Some assms by (auto simp: AddCoin_def Let_def usage_ok_def)
qed

lemma SpendCoin_usage_ok:
  assumes "usage_ok c"
  shows "usage_ok (snd (SpendCoin vt c outpoint moveout))"
proof (cases "FetchCoin vt c outpoint")
  case (Pair r c')
  have ok: "usage_ok c'" and lk: "\<And>e. r = Some e \<Longrightarrow> map_of (cacheCoins c') outpoint = Some e"
    using FetchCoin_usage_ok [OF assms, of vt outpoint] Pair by auto
  show ?thesis
  proof (cases r)
    case None
    then show ?thesis using Pair ok by (simp add: SpendCoin_def)
  next
    case (Some e)
    have d: "usage_ok (c'\<lparr>cacheCoins := AList.delete outpoint (cacheCoins c'),
               cachedCoinsUsage := cachedCoinsUsage c' - DynamicMemoryUsage (coin e)\<rparr>)"
      by (rule usage_ok_delete [OF ok lk [OF Some]])
    have u: "usage_ok (c'\<lparr>cacheCoins := AList.update outpoint
                 \<lparr>coin = Clear (coin e), flags = flags e OR DIRTY\<rparr> (cacheCoins c'),
               cachedCoinsUsage := cachedCoinsUsage c' - DynamicMemoryUsage (coin e)
                 + DynamicMemoryUsage (coin \<lparr>coin = Clear (coin e), flags = flags e OR DIRTY\<rparr>)\<rparr>)"
      by (rule usage_ok_update_old [OF ok lk [OF Some]])
    show ?thesis
      using Pair Some d u by (auto simp: SpendCoin_def Let_def usage_Clear usage_ok_def)
  qed
qed

lemma BatchWrite_loop_usage_ok:
  "usage_ok c \<Longrightarrow> usage_ok (snd (snd (BatchWrite_loop mapCoins c)))"
proof (induction mapCoins arbitrary: c)
  case Nil
  then show ?case by simp
next
  case (Cons a mapCoins)
  obtain k it where a: "a = (k, it)" by (cases a)
  show ?case
  proof (cases "map_of (cacheCoins c) k")
    case None
    have "usage_ok (c\<lparr>cacheCoins := AList.update k \<lparr>coin = coin it, flags = f\<rparr> (cacheCoins c),
         cachedCoinsUsage := cachedCoinsUsage c
            + DynamicMemoryUsage (coin \<lparr>coin = coin it, flags = f\<rparr>)\<rparr>)" for f
      by (rule usage_ok_update_new [OF Cons.prems None])
    then show ?thesis
      unfolding a using None Cons.prems by (auto intro!: Cons.IH)
  next
    case (Some itUs)
    have d: "usage_ok (c\<lparr>cachedCoinsUsage := cachedCoinsUsage c - DynamicMemoryUsage (coin itUs),
               cacheCoins := AList.delete k (cacheCoins c)\<rparr>)"
      using usage_ok_delete [OF Cons.prems Some] by (simp add: usage_ok_def)
    have u: "usage_ok (c\<lparr>cachedCoinsUsage := cachedCoinsUsage c - DynamicMemoryUsage (coin itUs)
                 + DynamicMemoryUsage (coin it),
               cacheCoins := AList.update k \<lparr>coin = coin it, flags = flags itUs OR DIRTY\<rparr>
                 (cacheCoins c)\<rparr>)"
      using usage_ok_update_old [OF Cons.prems Some,
          of "\<lparr>coin = coin it, flags = flags itUs OR DIRTY\<rparr>"]
      by (simp add: usage_ok_def)
    show ?thesis
      unfolding a using Some Cons.prems d u by (auto intro!: Cons.IH)
  qed
qed

lemma exec_usage_ok:
  assumes ok: "usage_ok c"
    and ret: "fst (exec vt h x c) = Returns ()
       \<or> (\<forall>outpoint cn possible_overwrite. x \<noteq> Call_AddCoin outpoint cn possible_overwrite)
          \<and> x \<noteq> Call_Flush"
    and emp: "\<And>outpoint cn. x = Call_EmplaceCoinInternalDANGER outpoint cn
       \<Longrightarrow> map_of (cacheCoins c) outpoint = None"
  shows "usage_ok (snd (exec vt h x c))"
proof (cases x)
  case (Call_GetCoin outpoint)
  then show ?thesis
    using FetchCoin_usage_ok [OF ok, of vt outpoint]
    by (auto simp: GetCoin_def split: option.splits prod.splits)
next
  case (Call_HaveCoin outpoint)
  then show ?thesis by (simp add: HaveCoin_usage_ok [OF ok])
next
  case (Call_AccessCoin outpoint)
  then show ?thesis
    using FetchCoin_usage_ok [OF ok, of vt outpoint]
    by (auto simp: AccessCoin_def split: option.splits prod.splits)
next
  case (Call_HaveInputs isCoinBase vin)
  then show ?thesis
    using HaveInputs_loop_usage_ok [OF ok, of vt vin] ok by (simp add: HaveInputs_def)
next
  case (Call_AddCoin outpoint cn possible_overwrite)
  then show ?thesis
    using AddCoin_usage_ok [OF ok, of outpoint cn possible_overwrite] ret by auto
next
  case (Call_EmplaceCoinInternalDANGER outpoint cn)
  have "usage_ok (c\<lparr>cacheCoins := AList.update outpoint \<lparr>coin = cn, flags = DIRTY\<rparr> (cacheCoins c),
         cachedCoinsUsage := cachedCoinsUsage c
            + DynamicMemoryUsage (coin \<lparr>coin = cn, flags = DIRTY\<rparr>)\<rparr>)"
    by (rule usage_ok_update_new [OF ok emp [OF Call_EmplaceCoinInternalDANGER]])
  then show ?thesis
    using Call_EmplaceCoinInternalDANGER emp [OF Call_EmplaceCoinInternalDANGER]
    by (simp add: EmplaceCoinInternalDANGER_def usage_ok_def)
next
  case (Call_SpendCoin outpoint moveout)
  then show ?thesis by (simp add: SpendCoin_usage_ok [OF ok])
next
  case (Call_Uncache outpoint)
  show ?thesis
  proof (cases "map_of (cacheCoins c) outpoint")
    case None
    then show ?thesis using Call_Uncache ok by (simp add: Uncache_def)
  next
    case (Some e)
    then show ?thesis
      using Call_Uncache ok usage_ok_delete [OF ok Some]
      by (simp add: Uncache_def usage_ok_def)
  qed
next
  case Call_GetBestBlock
  then show ?thesis
    using ok by (auto simp: GetBestBlock_def usage_ok_def split: prod.splits)
next
  case (Call_SetBestBlock hashBlockIn)
  then show ?thesis using ok by (simp add: SetBestBlock_def usage_ok_def)
next
  case (Call_SetName name data undo)
  then show ?thesis
    using ok by (auto simp: SetName_def Let_def usage_ok_def split: option.splits prod.splits)
next
  case (Call_DeleteName name)
  then show ?thesis
    using ok by (auto simp: DeleteName_def Let_def usage_ok_def split: option.splits prod.splits)
next
  case (Call_BatchWrite mapCoins hashBlockIn names)
  then show ?thesis
    using BatchWrite_loop_usage_ok [OF ok, of mapCoins]
    by (auto simp: BatchWrite_def usage_ok_def split: prod.splits outcome.splits)
next
  case Call_Flush
  then show ?thesis
    using ret ok
    by (auto simp: Flush_def usage_ok_def coins_usage_def ends_def
        split: prod.splits outcome.splits if_splits)
next
  case Call_ReallocateCache
  then show ?thesis using ok by (auto simp: ReallocateCache_def usage_ok_def)
qed (simp_all add: ok)

section \<open>SetName and its undo\<close>

lemma GetNameHistory_expire:
  "GetNameHistory vt (c\<lparr>cacheNames := cacheNames c\<lparr>expire := X\<rparr>\<rparr>) name' data
     = GetNameHistory vt c name' data"
  by (simp add: GetNameHistory_def CNameCache_getHistory_def split: option.splits)

lemma SetName_forward:
  assumes prior: "GetName vt c name = Some old"
    and gh: "GetNameHistory vt c name [] = (found, H)"
    and hist: "found \<or> H = []"
  shows "SetName vt fNameHistory c name d False =
     (Returns (),
      c\<lparr>cacheNames :=
          \<lparr>entries = (entries (cacheNames c))(name \<mapsto> NameSet d),
           histories = (if fNameHistory then (histories (cacheNames c))(name \<mapsto> H @ [old])
                        else histories (cacheNames c)),
           expire = (expire (cacheNames c))((name_height old, name) \<mapsto> False,
                       (name_height d, name) \<mapsto> True)\<rparr>\<rparr>)"
  using prior hist
  by (auto simp: SetName_def Let_def CNameCache_removeExpireIndex_def GetNameHistory_expire gh
      CNameCache_set_def CNameCache_addExpireIndex_def CNameCache_setHistory_def
      CNameHistory_push_def)

lemma SetName_undo:
  assumes prior: "GetName vt c name = Some cur"
    and gh: "GetNameHistory vt c name [] = (found, H @ [old])"
    and hist: "found"
  shows "SetName vt True c name old True =
     (Returns (),
      c\<lparr>cacheNames :=
          \<lparr>entries = (entries (cacheNames c))(name \<mapsto> NameSet old),
           histories = (histories (cacheNames c))(name \<mapsto> H),
           expire = (expire (cacheNames c))((name_height cur, name) \<mapsto> False,
                       (name_height old, name) \<mapsto> True)\<rparr>\<rparr>)"
  using prior hist
  by (auto simp: SetName_def Let_def CNameCache_removeExpireIndex_def GetNameHistory_expire gh
      CNameCache_set_def CNameCache_addExpireIndex_def CNameCache_setHistory_def
      CNameHistory_pop_def)

lemma SetName_undo_nohist:
  assumes prior: "GetName vt c name = Some cur"
  shows "SetName vt False c name old True =
     (Returns (),
      c\<lparr>cacheNames :=
          \<lparr>entries = (entries (cacheNames c))(name \<mapsto> NameSet old),
           histories = histories (cacheNames c),
           expire = (expire (cacheNames c))((name_height cur, name) \<mapsto> False,
                       (name_height old, name) \<mapsto> True)\<rparr>\<rparr>)"
  using prior
  by (auto simp: SetName_def Let_def CNameCache_set_def
      CNameCache_addExpireIndex_def CNameCache_removeExpireIndex_def)

lemma SetName_undo_mismatch:
  assumes prior: "GetName vt c name = Some cur"
    and gh: "GetNameHistory vt c name [] = (True, H @ [old])"
    and neq: "x \<noteq> old"
  shows "fst (SetName vt True c name x True) = Aborts"
  using prior neq
  by (simp add: SetName_def Let_def CNameCache_removeExpireIndex_def GetNameHistory_expire gh
      CNameHistory_pop_def)

lemma GetName_set:
  "entries (cacheNames c) name = Some (NameSet d) \<Longrightarrow> GetName vt c name = Some d"
  by (simp add: GetName_def CNameCache_isDeleted_def CNameCache_get_def)

lemma GetNameHistory_set:
  "histories (cacheNames c) name = Some H \<Longrightarrow> GetNameHistory vt c name data = (True, H)"
  by (simp add: GetNameHistory_def CNameCache_getHistory_def)


lemma GetNamesForHeight_restored:
  assumes b: "base c2 = base c"
    and e: "expire (cacheNames c2) =
       (expire (cacheNames c))((hnew, name) \<mapsto> False, (hold, name) \<mapsto> True)"
    and listed: "fst (GetNamesForHeight vt c hold names)
         \<Longrightarrow> name \<in> snd (GetNamesForHeight vt c hold names)"
    and unlisted: "hnew \<noteq> hold \<Longrightarrow> fst (GetNamesForHeight vt c hnew names)
         \<Longrightarrow> name \<notin> snd (GetNamesForHeight vt c hnew names)"
  shows "GetNamesForHeight vt c2 height names = GetNamesForHeight vt c height names"
proof (cases "v_GetNamesForHeight vt (base c) height names")
  case (Pair ok names')
  show ?thesis
  proof (cases ok)
    case False
    then show ?thesis using Pair b by (simp add: GetNamesForHeight_def)
  next
    case True
    have l: "height = hold \<longrightarrow>
        name \<in> CNameCache_updateNamesForHeight (cacheNames c) height names'"
      using listed Pair True by (auto simp: GetNamesForHeight_def)
    have u: "height = hnew \<and> hnew \<noteq> hold \<longrightarrow>
        name \<notin> CNameCache_updateNamesForHeight (cacheNames c) height names'"
      using unlisted Pair True by (auto simp: GetNamesForHeight_def)
    have m: "(n \<in> CNameCache_updateNamesForHeight (cacheNames c2) height names')
        = (n \<in> CNameCache_updateNamesForHeight (cacheNames c) height names')" for n
    proof -
      consider (old) "n = name \<and> height = hold"
        | (new) "n = name \<and> height = hnew \<and> hnew \<noteq> hold"
        | (other) "(height, n) \<noteq> (hold, name) \<and> (height, n) \<noteq> (hnew, name)"
        by auto
      then show ?thesis
      proof cases
        case old
        have "n \<in> CNameCache_updateNamesForHeight (cacheNames c2) height names'"
          using old by (simp add: CNameCache_updateNamesForHeight_def e)
        then show ?thesis using l old by simp
      next
        case new
        have "n \<notin> CNameCache_updateNamesForHeight (cacheNames c2) height names'"
          using new by (simp add: CNameCache_updateNamesForHeight_def e)
        then show ?thesis using u new by simp
      next
        case other
        then have "expire (cacheNames c2) (height, n) = expire (cacheNames c) (height, n)"
          by (auto simp: e)
        then show ?thesis by (simp add: CNameCache_updateNamesForHeight_def)
      qed
    qed
    have "CNameCache_updateNamesForHeight (cacheNames c2) height names'
        = CNameCache_updateNamesForHeight (cacheNames c) height names'"
      by (rule set_eqI) (rule m)
    then show ?thesis using Pair True b by (simp add: GetNamesForHeight_def)
  qed
qed

text \<open>
  C8 (as amended).  Let the name have the record \<open>old\<close>, let a failed read of its history
  leave the stack empty (what \<open>SetName\<close> asserts), and let the expire index, as
  \<open>GetNamesForHeight\<close> shows it, list the name at the height of \<open>old\<close> and not at the
  height of the new record.  Then \<open>SetName(name, d, false)\<close> and
  \<open>SetName(name, old, true)\<close> both return.  After the first the name reads \<open>d\<close>; after
  the second it reads \<open>old\<close> again, its history stack is the former stack, and
  \<open>GetNamesForHeight\<close> answers at every height as it did before.  With name histories kept,
  the first call pushes \<open>old\<close> on the stack, an undo to any record other than \<open>old\<close> fails
  the assertion of \<open>pop\<close>, and after the second call the history is found, with the former
  stack.  With name histories switched off, the history is read as before throughout, nothing
  is pushed, and an undo to any record returns.
\<close>

theorem SetName_undo_inverse:
  assumes prior: "GetName vt c name = Some old"
    and hist: "fst (GetNameHistory vt c name []) \<or> snd (GetNameHistory vt c name []) = []"
    and listed: "fst (GetNamesForHeight vt c (name_height old) names)
         \<Longrightarrow> name \<in> snd (GetNamesForHeight vt c (name_height old) names)"
    and unlisted: "name_height d \<noteq> name_height old
         \<Longrightarrow> fst (GetNamesForHeight vt c (name_height d) names)
         \<Longrightarrow> name \<notin> snd (GetNamesForHeight vt c (name_height d) names)"
  shows "let c1 = snd (SetName vt fNameHistory c name d False);
             c2 = snd (SetName vt fNameHistory c1 name old True)
         in fst (SetName vt fNameHistory c name d False) = Returns ()
          \<and> fst (SetName vt fNameHistory c1 name old True) = Returns ()
          \<and> GetName vt c1 name = Some d
          \<and> (fNameHistory \<longrightarrow>
               GetNameHistory vt c1 name [] = (True, snd (GetNameHistory vt c name []) @ [old]))
          \<and> (fNameHistory \<longrightarrow>
               (\<forall>x. x \<noteq> old \<longrightarrow> fst (SetName vt fNameHistory c1 name x True) = Aborts))
          \<and> (\<not> fNameHistory \<longrightarrow>
               GetNameHistory vt c1 name [] = GetNameHistory vt c name []
               \<and> (\<forall>x. fst (SetName vt fNameHistory c1 name x True) = Returns ()))
          \<and> GetName vt c2 name = Some old
          \<and> snd (GetNameHistory vt c2 name []) = snd (GetNameHistory vt c name [])
          \<and> GetNameHistory vt c2 name [] =
               (if fNameHistory then (True, snd (GetNameHistory vt c name []))
                else GetNameHistory vt c name [])
          \<and> (\<forall>height.
                GetNamesForHeight vt c2 height names = GetNamesForHeight vt c height names)"
proof -
  obtain found H where gh: "GetNameHistory vt c name [] = (found, H)"
    by (cases "GetNameHistory vt c name []")
  have h: "found \<or> H = []" using hist gh by simp
  let ?c1 = "snd (SetName vt fNameHistory c name d False)"
  let ?c2 = "snd (SetName vt fNameHistory ?c1 name old True)"
  note f = SetName_forward [OF prior gh h, of fNameHistory d]
  have r1: "fst (SetName vt fNameHistory c name d False) = Returns ()"
    by (simp add: f)
  have e1: "entries (cacheNames ?c1) name = Some (NameSet d)"
    and b1: "base ?c1 = base c"
    and x1: "expire (cacheNames ?c1) = (expire (cacheNames c))((name_height old, name) \<mapsto> False,
                       (name_height d, name) \<mapsto> True)"
    by (simp_all add: f)
  have g1: "GetName vt ?c1 name = Some d"
    by (rule GetName_set [OF e1])
  have hs1: "histories (cacheNames ?c1) =
      (if fNameHistory then (histories (cacheNames c))(name \<mapsto> H @ [old])
       else histories (cacheNames c))"
    by (simp add: f)
  have h1: "fNameHistory \<Longrightarrow> GetNameHistory vt ?c1 name [] = (True, H @ [old])"
    using hs1 by (auto intro: GetNameHistory_set)
  have u: "SetName vt fNameHistory ?c1 name old True =
     (Returns (),
      ?c1\<lparr>cacheNames :=
          \<lparr>entries = (entries (cacheNames ?c1))(name \<mapsto> NameSet old),
           histories = (if fNameHistory then (histories (cacheNames ?c1))(name \<mapsto> H)
                        else histories (cacheNames ?c1)),
           expire = (expire (cacheNames ?c1))((name_height d, name) \<mapsto> False,
                       (name_height old, name) \<mapsto> True)\<rparr>\<rparr>)"
  proof (cases fNameHistory)
    case True
    show ?thesis
      using SetName_undo [OF g1 h1 [OF True]] True by simp
  next
    case False
    show ?thesis
      using SetName_undo_nohist [OF g1, of old] False by simp
  qed
  have r2: "fst (SetName vt fNameHistory ?c1 name old True) = Returns ()"
    by (simp add: u)
  have e2: "entries (cacheNames ?c2) name = Some (NameSet old)"
    and b2: "base ?c2 = base c"
    by (simp_all add: u b1)
  have x2: "expire (cacheNames ?c2) = (expire (cacheNames c))((name_height d, name) \<mapsto> False,
                       (name_height old, name) \<mapsto> True)"
    by (auto simp: u x1)
  have g2: "GetName vt ?c2 name = Some old"
    by (rule GetName_set [OF e2])
  have hs2: "histories (cacheNames ?c2) =
      (if fNameHistory then (histories (cacheNames ?c1))(name \<mapsto> H)
       else histories (cacheNames ?c1))"
    by (simp add: u)
  have k2: "GetNameHistory vt ?c2 name [] =
      (if fNameHistory then (True, H) else GetNameHistory vt c name [])"
  proof (cases fNameHistory)
    case True
    have "GetNameHistory vt ?c2 name [] = (True, H)"
      using hs2 True by (auto intro: GetNameHistory_set)
    then show ?thesis using True by simp
  next
    case False
    have "histories (cacheNames ?c2) = histories (cacheNames c)"
      using hs1 hs2 False by simp
    then have "GetNameHistory vt ?c2 name [] = GetNameHistory vt c name []"
      using b2 by (simp add: GetNameHistory_def CNameCache_getHistory_def split: option.splits)
    then show ?thesis using False by simp
  qed
  have h2: "snd (GetNameHistory vt ?c2 name []) = H"
    using k2 by (simp add: gh split: if_splits)
  have nf: "\<not> fNameHistory \<longrightarrow>
      GetNameHistory vt ?c1 name [] = GetNameHistory vt c name []
      \<and> (\<forall>x. fst (SetName vt fNameHistory ?c1 name x True) = Returns ())"
  proof (intro impI conjI allI)
    assume F: "\<not> fNameHistory"
    have "histories (cacheNames ?c1) = histories (cacheNames c)"
      using hs1 F by simp
    then show "GetNameHistory vt ?c1 name [] = GetNameHistory vt c name []"
      using b1 by (simp add: GetNameHistory_def CNameCache_getHistory_def split: option.splits)
  next
    fix x
    assume F: "\<not> fNameHistory"
    show "fst (SetName vt fNameHistory ?c1 name x True) = Returns ()"
      using SetName_undo_nohist [OF g1, of x] F by simp
  qed
  have n2: "GetNamesForHeight vt ?c2 height names = GetNamesForHeight vt c height names"
    for height
    by (rule GetNamesForHeight_restored [OF b2 x2 listed unlisted])
  have m: "fNameHistory \<longrightarrow>
      (\<forall>x. x \<noteq> old \<longrightarrow> fst (SetName vt fNameHistory ?c1 name x True) = Aborts)"
  proof (intro impI allI)
    fix x
    assume T: fNameHistory and n: "x \<noteq> old"
    show "fst (SetName vt fNameHistory ?c1 name x True) = Aborts"
      using SetName_undo_mismatch [OF g1 h1 [OF T] n] T by simp
  qed
  have p: "fNameHistory \<longrightarrow>
      GetNameHistory vt ?c1 name [] = (True, snd (GetNameHistory vt c name []) @ [old])"
    using h1 by (simp add: gh)
  have q: "snd (GetNameHistory vt ?c2 name []) = snd (GetNameHistory vt c name [])"
    using h2 by (simp add: gh)
  have k: "GetNameHistory vt ?c2 name [] =
      (if fNameHistory then (True, snd (GetNameHistory vt c name []))
       else GetNameHistory vt c name [])"
    using k2 by (simp add: gh)
  show ?thesis
    unfolding Let_def using r1 r2 g1 p m nf g2 q k n2 by blast
qed


lemma ex_name_parent_reads:
  "GetName ex_name_parent (CCoinsViewCache_new ()) ex_name = Some ex_old"
  "GetNameHistory ex_name_parent (CCoinsViewCache_new ()) ex_name [] = (False, [])"
  "GetNamesForHeight ex_name_parent (CCoinsViewCache_new ()) height names =
     (True, if height = 7 then insert ex_name names else names)"
  by (simp_all add: ex_name_parent_def CCoinsView_base_def CCoinsViewCache_new_def
      CNameCache_new_def GetName_def GetNameHistory_def GetNamesForHeight_def
      CNameCache_isDeleted_def CNameCache_get_def CNameCache_getHistory_def
      CNameCache_updateNamesForHeight_def)

theorem SetName_undo_inverse_witness:
  "GetName ex_name_parent (CCoinsViewCache_new ()) ex_name = Some ex_old
   \<and> snd (GetNameHistory ex_name_parent (CCoinsViewCache_new ()) ex_name []) = []
   \<and> GetNamesForHeight ex_name_parent (CCoinsViewCache_new ()) 7 {} = (True, {ex_name})
   \<and> GetNamesForHeight ex_name_parent (CCoinsViewCache_new ()) 9 {} = (True, {})
   \<and> fst (SetName ex_name_parent True (CCoinsViewCache_new ()) ex_name ex_new False) = Returns ()
   \<and> fst (SetName ex_name_parent True
        (snd (SetName ex_name_parent True (CCoinsViewCache_new ()) ex_name ex_new False))
        ex_name ex_old True) = Returns ()
   \<and> GetNameHistory ex_name_parent
        (snd (SetName ex_name_parent True (CCoinsViewCache_new ()) ex_name ex_new False))
        ex_name [] = (True, [ex_old])
   \<and> fst (SetName ex_name_parent True
        (snd (SetName ex_name_parent True (CCoinsViewCache_new ()) ex_name ex_new False))
        ex_name ex_new True) = Aborts
   \<and> GetName ex_name_parent
        (snd (SetName ex_name_parent True
           (snd (SetName ex_name_parent True (CCoinsViewCache_new ()) ex_name ex_new False))
           ex_name ex_old True)) ex_name = Some ex_old
   \<and> snd (GetNameHistory ex_name_parent
        (snd (SetName ex_name_parent True
           (snd (SetName ex_name_parent True (CCoinsViewCache_new ()) ex_name ex_new False))
           ex_name ex_old True)) ex_name []) = []
   \<and> GetNamesForHeight ex_name_parent
        (snd (SetName ex_name_parent True
           (snd (SetName ex_name_parent True (CCoinsViewCache_new ()) ex_name ex_new False))
           ex_name ex_old True)) 7 {} = (True, {ex_name})
   \<and> GetNamesForHeight ex_name_parent
        (snd (SetName ex_name_parent True
           (snd (SetName ex_name_parent True (CCoinsViewCache_new ()) ex_name ex_new False))
           ex_name ex_old True)) 9 {} = (True, {})
   \<and> GetNameHistory ex_name_parent
        (snd (SetName ex_name_parent True
           (snd (SetName ex_name_parent True (CCoinsViewCache_new ()) ex_name ex_new False))
           ex_name ex_old True)) ex_name [] = (True, [])
   \<and> GetNameHistory ex_name_parent
        (snd (SetName ex_name_parent False
           (snd (SetName ex_name_parent False (CCoinsViewCache_new ()) ex_name ex_new False))
           ex_name ex_old True)) ex_name [] = (False, [])
   \<and> GetNamesForHeight ex_name_parent
        (snd (SetName ex_name_parent False
           (snd (SetName ex_name_parent False (CCoinsViewCache_new ()) ex_name ex_new False))
           ex_name ex_old True)) 7 {} = (True, {ex_name})"
proof -
  have hist: "fst (GetNameHistory ex_name_parent (CCoinsViewCache_new ()) ex_name [])
      \<or> snd (GetNameHistory ex_name_parent (CCoinsViewCache_new ()) ex_name []) = []"
    by (simp add: ex_name_parent_reads)
  have listed: "name_height ex_old = 7" and differ: "name_height ex_new = 9"
    and neq: "ex_new \<noteq> ex_old"
    by (simp_all add: ex_old_def ex_new_def)
  show ?thesis
    using SetName_undo_inverse [OF ex_name_parent_reads(1) hist, of "{}" ex_new True]
      SetName_undo_inverse [OF ex_name_parent_reads(1) hist, of "{}" ex_new False] neq
    by (simp add: Let_def ex_name_parent_reads listed differ)
qed

text \<open>
  C8 as stated fails in three ways.  With name histories switched off, the forward call pushes
  nothing and an undo to a record other than \<open>old\<close> returns without any assertion.  With
  histories kept and no history before, the read of the history goes from not found to found
  with an empty stack.  And over a parent that holds the record but lists the name at no
  height, the name is listed at the height of \<open>old\<close> after the two calls and was not before.
\<close>

theorem SetName_undo_inverse_counterexample:
  "GetName ex_name_parent (CCoinsViewCache_new ()) ex_name = Some ex_old
   \<and> ex_new \<noteq> ex_old
   \<and> GetNameHistory ex_name_parent
        (snd (SetName ex_name_parent False (CCoinsViewCache_new ()) ex_name ex_new False))
        ex_name [] = (False, [])
   \<and> fst (SetName ex_name_parent False
        (snd (SetName ex_name_parent False (CCoinsViewCache_new ()) ex_name ex_new False))
        ex_name ex_new True) = Returns ()
   \<and> GetNameHistory ex_name_parent (CCoinsViewCache_new ()) ex_name [] = (False, [])
   \<and> GetNameHistory ex_name_parent
        (snd (SetName ex_name_parent True
           (snd (SetName ex_name_parent True (CCoinsViewCache_new ()) ex_name ex_new False))
           ex_name ex_old True)) ex_name [] = (True, [])
   \<and> GetName ex_unlisted_parent (CCoinsViewCache_new ()) ex_name = Some ex_old
   \<and> GetNamesForHeight ex_unlisted_parent (CCoinsViewCache_new ()) 7 {} = (True, {})
   \<and> fst (SetName ex_unlisted_parent True (CCoinsViewCache_new ()) ex_name ex_new False)
       = Returns ()
   \<and> fst (SetName ex_unlisted_parent True
        (snd (SetName ex_unlisted_parent True (CCoinsViewCache_new ()) ex_name ex_new False))
        ex_name ex_old True) = Returns ()
   \<and> GetNamesForHeight ex_unlisted_parent
        (snd (SetName ex_unlisted_parent True
           (snd (SetName ex_unlisted_parent True (CCoinsViewCache_new ()) ex_name ex_new False))
           ex_name ex_old True)) 7 {} = (True, {ex_name})"
proof -
  let ?s1f = "(CCoinsViewCache_new () :: unit CCoinsViewCache)\<lparr>cacheNames :=
          \<lparr>entries = [ex_name \<mapsto> NameSet ex_new], histories = Map.empty,
           expire = [(7, ex_name) \<mapsto> False, (9, ex_name) \<mapsto> True]\<rparr>\<rparr>"
  let ?s1t = "(CCoinsViewCache_new () :: unit CCoinsViewCache)\<lparr>cacheNames :=
          \<lparr>entries = [ex_name \<mapsto> NameSet ex_new], histories = [ex_name \<mapsto> [ex_old]],
           expire = [(7, ex_name) \<mapsto> False, (9, ex_name) \<mapsto> True]\<rparr>\<rparr>"
  have neq: "ex_new \<noteq> ex_old" and ho: "name_height ex_old = 7" and hn: "name_height ex_new = 9"
    by (simp_all add: ex_old_def ex_new_def)
  have ur: "GetName ex_unlisted_parent (CCoinsViewCache_new ()) ex_name = Some ex_old"
    "GetNameHistory ex_unlisted_parent (CCoinsViewCache_new ()) ex_name [] = (False, [])"
    "GetNamesForHeight ex_unlisted_parent (CCoinsViewCache_new ()) 7 {} = (True, {})"
    by (simp_all add: ex_unlisted_parent_def CCoinsView_base_def CCoinsViewCache_new_def
      CNameCache_new_def GetName_def GetNameHistory_def GetNamesForHeight_def
      CNameCache_isDeleted_def CNameCache_get_def CNameCache_getHistory_def
      CNameCache_updateNamesForHeight_def)
  have f0: "SetName ex_name_parent False (CCoinsViewCache_new ()) ex_name ex_new False =
     (Returns (), ?s1f)"
    using SetName_forward [OF ex_name_parent_reads(1) ex_name_parent_reads(2), of False ex_new]
    by (simp add: ho hn CCoinsViewCache_new_def CNameCache_new_def)
  have f1: "SetName ex_name_parent True (CCoinsViewCache_new ()) ex_name ex_new False =
     (Returns (), ?s1t)"
    using SetName_forward [OF ex_name_parent_reads(1) ex_name_parent_reads(2), of True ex_new]
    by (simp add: ho hn CCoinsViewCache_new_def CNameCache_new_def)
  have f2: "SetName ex_unlisted_parent True (CCoinsViewCache_new ()) ex_name ex_new False =
     (Returns (), ?s1t)"
    using SetName_forward [OF ur(1) ur(2), of True ex_new]
    by (simp add: ho hn CCoinsViewCache_new_def CNameCache_new_def)
  have g0: "GetName ex_name_parent ?s1f ex_name = Some ex_new"
    by (rule GetName_set) simp
  have g1: "GetName ex_name_parent ?s1t ex_name = Some ex_new"
    by (rule GetName_set) simp
  have g2: "GetName ex_unlisted_parent ?s1t ex_name = Some ex_new"
    by (rule GetName_set) simp
  have h1: "GetNameHistory ex_name_parent ?s1t ex_name [] = (True, [] @ [ex_old])"
    by (rule GetNameHistory_set) simp
  have h2: "GetNameHistory ex_unlisted_parent ?s1t ex_name [] = (True, [] @ [ex_old])"
    by (rule GetNameHistory_set) simp
  note u0 = SetName_undo_nohist [OF g0, of ex_new]
  note u1 = SetName_undo [OF g1 h1]
  note u2 = SetName_undo [OF g2 h2]
  have a: "GetNameHistory ex_name_parent
        (snd (SetName ex_name_parent False (CCoinsViewCache_new ()) ex_name ex_new False))
        ex_name [] = (False, [])"
    by (simp only: f0 snd_conv)
      (simp add: GetNameHistory_def CNameCache_getHistory_def ex_name_parent_def
        CCoinsView_base_def)
  have b: "fst (SetName ex_name_parent False
        (snd (SetName ex_name_parent False (CCoinsViewCache_new ()) ex_name ex_new False))
        ex_name ex_new True) = Returns ()"
    by (simp only: f0 snd_conv u0 fst_conv)
  have c: "GetNameHistory ex_name_parent
        (snd (SetName ex_name_parent True
           (snd (SetName ex_name_parent True (CCoinsViewCache_new ()) ex_name ex_new False))
           ex_name ex_old True)) ex_name [] = (True, [])"
    by (simp only: f1 snd_conv u1) (rule GetNameHistory_set, simp)
  have d: "fst (SetName ex_unlisted_parent True
        (snd (SetName ex_unlisted_parent True (CCoinsViewCache_new ()) ex_name ex_new False))
        ex_name ex_old True) = Returns ()"
    by (simp only: f2 snd_conv u2 fst_conv)
  have e: "GetNamesForHeight ex_unlisted_parent
        (snd (SetName ex_unlisted_parent True
           (snd (SetName ex_unlisted_parent True (CCoinsViewCache_new ()) ex_name ex_new False))
           ex_name ex_old True)) 7 {} = (True, {ex_name})"
    by (simp only: f2 snd_conv u2)
      (auto simp: ho hn GetNamesForHeight_def CNameCache_updateNamesForHeight_def
        ex_unlisted_parent_def CCoinsView_base_def CCoinsViewCache_new_def
        split: if_splits option.splits)
  have r: "fst (SetName ex_unlisted_parent True (CCoinsViewCache_new ()) ex_name ex_new False)
       = Returns ()"
    by (simp only: f2 fst_conv)
  show ?thesis
    using neq a b c d e r ur(1) ur(3) ex_name_parent_reads(1) ex_name_parent_reads(2)
    by blast
qed

end
